theory Spec2Isabelle
  imports Main "HOL-Library.Word"
begin

section \<open>JavaScript strings\<close>

text \<open>
  A JavaScript string is a sequence of UTF-16 code units; \<open>length\<close> counts code units.
  The characters of \<open>src/main.mjs\<close> that matter are written by their code unit:
  U+5E74 (the year sign), U+6708 (the month sign), U+65E5 (the day sign), and the two
  code units U+672A U+77E5 of the literal the script uses for an unknown date.
\<close>

type_synonym jschar = "16 word"
type_synonym jsstring = "jschar list"

definition ch_year :: jschar where "ch_year = 0x5E74"
definition ch_month :: jschar where "ch_month = 0x6708"
definition ch_day :: jschar where "ch_day = 0x65E5"
definition ch_zero :: jschar where "ch_zero = 0x30"

definition unknown_str :: jsstring where
  "unknown_str = [0x672A, 0x77E5]"

text \<open>The class \<open>\d\<close> of a JavaScript regular expression: the ASCII digits only.\<close>

definition is_digit :: "jschar \<Rightarrow> bool" where
  "is_digit c \<longleftrightarrow> 0x30 \<le> c \<and> c \<le> 0x39"

text \<open>
  \<open>String.prototype.padStart(targetLength, padString)\<close>: the string itself when it is long
  enough or the filler is empty, otherwise the filler repeated and cut to the missing length,
  in front of the string.
\<close>

definition padStart :: "nat \<Rightarrow> jsstring \<Rightarrow> jsstring \<Rightarrow> jsstring" where
  "padStart targetLength padString s =
     (if targetLength \<le> length s \<or> padString = [] then s
      else take (targetLength - length s)
             (concat (replicate (targetLength - length s) padString)) @ s)"

section \<open>The regular expressions of the script\<close>

text \<open>
  The script's regular expressions are sequences of two kinds of atoms: a greedy bounded
  repetition of digits \<open>\d{lo,hi}\<close> and a literal character. A match yields the substring
  each atom consumed, in order; a capture group of the source is read off these substrings.
  The greedy repetition takes as many digits as it can (at most \<open>hi\<close>) and gives them back
  one at a time, down to \<open>lo\<close>, while the rest of the pattern fails.
\<close>

datatype atom = Digits nat nat | Chr jschar

fun first_some :: "'a option list \<Rightarrow> 'a option" where
  "first_some [] = None"
| "first_some (Some x # _) = Some x"
| "first_some (None # xs) = first_some xs"

fun match_here :: "atom list \<Rightarrow> jsstring \<Rightarrow> jsstring list option" where
  "match_here [] s = Some []"
| "match_here (Chr c # ps) s =
     (case s of [] \<Rightarrow> None
      | x # xs \<Rightarrow> if x = c then map_option ((#) [x]) (match_here ps xs) else None)"
| "match_here (Digits lo hi # ps) s =
     (let n = length (takeWhile is_digit (take hi s))
      in first_some (map (\<lambda>k. map_option ((#) (take k s)) (match_here ps (drop k s)))
                         (rev [lo ..< Suc n])))"

text \<open>
  \<open>String.prototype.match\<close> with a regular expression without the \<open>g\<close> flag: the leftmost
  position at which the pattern matches, or no match (\<open>null\<close>).
\<close>

fun regex_exec :: "atom list \<Rightarrow> jsstring \<Rightarrow> jsstring list option" where
  "regex_exec p [] = match_here p []"
| "regex_exec p (x # xs) =
     (case match_here p (x # xs) of Some m \<Rightarrow> Some m | None \<Rightarrow> regex_exec p xs)"

text \<open>\<open>/(\d{4})Y(\d{1,2})M(\d{1,2})D/\<close> of \<open>formatChineseDate\<close>, with Y, M, D the three signs.\<close>

definition date_rx :: "atom list" where
  "date_rx = [Digits 4 4, Chr ch_year, Digits 1 2, Chr ch_month, Digits 1 2, Chr ch_day]"

section \<open>formatChineseDate\<close>

text \<open>
  \<open>formatChineseDate(dateStr)\<close>, lines 10 to 15 of \<open>src/main.mjs\<close>. Every caller passes a
  string. \<open>dateStr && dateStr.match(...)\<close> is falsy for the empty string and for a string
  without a match; then the result is \<open>dateStr || unknown\<close>. Otherwise the three captured
  groups are the substrings of atoms 0, 2 and 4.
\<close>

definition formatChineseDate :: "jsstring \<Rightarrow> jsstring" where
  "formatChineseDate dateStr =
     (case (if dateStr = [] then None else regex_exec date_rx dateStr) of
        None \<Rightarrow> (if dateStr = [] then unknown_str else dateStr)
      | Some m \<Rightarrow>
          (let y = m ! 0; mo = m ! 2; d = m ! 4
           in y @ [ch_year] @ padStart 2 [ch_zero] mo @ [ch_month]
                @ padStart 2 [ch_zero] d @ [ch_day]))"

section \<open>Dates\<close>

text \<open>
  The \<open>Date\<close> object of the runtime, after the abstract operations of the ECMAScript
  specification (\<open>Day\<close>, \<open>DaysInYear\<close>, \<open>DayFromYear\<close>, \<open>YearFromTime\<close>,
  \<open>MonthFromTime\<close>, \<open>DateFromTime\<close>, \<open>MakeDay\<close>, \<open>MakeDate\<close>). A time value is a number
  of milliseconds since the epoch. \<open>YearFromTime t\<close> is the largest year whose first day is
  not after \<open>t\<close>; it is computed by walking up from a year that is not too late. The time
  values that arise from a four-digit year, a two-digit month and a two-digit day are far
  inside the range on which \<open>TimeClip\<close> is the identity, so no \<open>NaN\<close> is modelled.
\<close>

definition msPerDay :: int where "msPerDay = 86400000"

definition Day :: "int \<Rightarrow> int" where "Day t = t div msPerDay"

definition TimeWithinDay :: "int \<Rightarrow> int" where "TimeWithinDay t = t mod msPerDay"

definition DaysInYear :: "int \<Rightarrow> int" where
  "DaysInYear y =
     (if y mod 4 \<noteq> 0 then 365 else if y mod 100 \<noteq> 0 then 366
      else if y mod 400 \<noteq> 0 then 365 else 366)"

definition DayFromYear :: "int \<Rightarrow> int" where
  "DayFromYear y = 365 * (y - 1970) + (y - 1969) div 4 - (y - 1901) div 100 + (y - 1601) div 400"

function year_upto :: "int \<Rightarrow> int \<Rightarrow> int" where
  "year_upto y day = (if DayFromYear (y + 1) \<le> day then year_upto (y + 1) day else y)"
  by pat_completeness auto
termination
proof (relation "measure (\<lambda>(y, day). nat (day - DayFromYear y))")
  show "wf (measure (\<lambda>(y, day). nat (day - DayFromYear y)))" by simp
next
  fix y day :: int
  assume le: "DayFromYear (y + 1) \<le> day"
  define a a' b b' c c' where "a = (y - 1969) div 4" and "a' = (y + 1 - 1969) div 4"
    and "b = (y - 1901) div 100" and "b' = (y + 1 - 1901) div 100"
    and "c = (y - 1601) div 400" and "c' = (y + 1 - 1601) div 400"
  have "a \<le> a'" unfolding a_def a'_def by (rule zdiv_mono1) simp_all
  moreover have "b' \<le> (y - 1901 + 100) div 100" unfolding b'_def by (rule zdiv_mono1) simp_all
  then have "b' \<le> b + 1" unfolding b_def by simp
  moreover have "c \<le> c'" unfolding c_def c'_def by (rule zdiv_mono1) simp_all
  moreover have "DayFromYear y = 365 * (y - 1970) + a - b + c"
    and "DayFromYear (y + 1) = 365 * (y + 1 - 1970) + a' - b' + c'"
    by (simp_all only: DayFromYear_def a_def a'_def b_def b'_def c_def c'_def)
  ultimately have "DayFromYear y < DayFromYear (y + 1)" by simp
  with le show "((y + 1, day), (y, day)) \<in> measure (\<lambda>(y, day). nat (day - DayFromYear y))"
    by simp
qed

declare year_upto.simps [simp del]

definition YearFromTime :: "int \<Rightarrow> int" where
  "YearFromTime t =
     (let day = Day t
      in year_upto (1970 + (if 0 \<le> day then day div 366 else day div 365)) day)"

definition InLeapYear :: "int \<Rightarrow> int" where
  "InLeapYear t = (if DaysInYear (YearFromTime t) = 366 then 1 else 0)"

definition DayWithinYear :: "int \<Rightarrow> int" where
  "DayWithinYear t = Day t - DayFromYear (YearFromTime t)"

definition MonthFromTime :: "int \<Rightarrow> int" where
  "MonthFromTime t =
     (let d = DayWithinYear t; L = InLeapYear t
      in if d < 31 then 0
         else if d < 59 + L then 1
         else if d < 90 + L then 2
         else if d < 120 + L then 3
         else if d < 151 + L then 4
         else if d < 181 + L then 5
         else if d < 212 + L then 6
         else if d < 243 + L then 7
         else if d < 273 + L then 8
         else if d < 304 + L then 9
         else if d < 334 + L then 10
         else 11)"

definition DateFromTime :: "int \<Rightarrow> int" where
  "DateFromTime t =
     (let d = DayWithinYear t; L = InLeapYear t; m = MonthFromTime t
      in if m = 0 then d + 1
         else if m = 1 then d - 30
         else if m = 2 then d - 58 - L
         else if m = 3 then d - 89 - L
         else if m = 4 then d - 119 - L
         else if m = 5 then d - 150 - L
         else if m = 6 then d - 180 - L
         else if m = 7 then d - 211 - L
         else if m = 8 then d - 242 - L
         else if m = 9 then d - 272 - L
         else if m = 10 then d - 303 - L
         else d - 333 - L)"

definition month_start :: "int \<Rightarrow> int \<Rightarrow> int" where
  "month_start mn L =
     (if mn = 0 then 0
      else if mn = 1 then 31
      else if mn = 2 then 59 + L
      else if mn = 3 then 90 + L
      else if mn = 4 then 120 + L
      else if mn = 5 then 151 + L
      else if mn = 6 then 181 + L
      else if mn = 7 then 212 + L
      else if mn = 8 then 243 + L
      else if mn = 9 then 273 + L
      else if mn = 10 then 304 + L
      else 334 + L)"

definition MakeDay :: "int \<Rightarrow> int \<Rightarrow> int \<Rightarrow> int" where
  "MakeDay year month dt =
     (let ym = year + month div 12; mn = month mod 12
      in DayFromYear ym + month_start mn (if DaysInYear ym = 366 then 1 else 0) + dt - 1)"

definition MakeDate :: "int \<Rightarrow> int \<Rightarrow> int" where
  "MakeDate day time = day * msPerDay + time"

text \<open>
  The local time zone of the runtime is what the ECMAScript specification calls
  \<open>LocalTZA(t, isUTC)\<close>, an offset in milliseconds that depends on the instant:
  \<open>offset_of_utc\<close> is the offset in force at a UTC time value, \<open>offset_of_local\<close> the
  offset by which a local time value is read. The two agree except around a transition of
  the zone: a local time that a transition skips or repeats is read with the offset from
  before the transition. \<open>LocalTime(t) = t + LocalTZA(t, true)\<close> and
  \<open>UTC(t) = t - LocalTZA(t, false)\<close>. \<open>fixed_zone\<close> is a zone with one offset at all
  times, such as UTC.
\<close>

record zone =
  offset_of_utc :: "int \<Rightarrow> int"
  offset_of_local :: "int \<Rightarrow> int"

definition fixed_zone :: "int \<Rightarrow> zone" where
  "fixed_zone tza = \<lparr>offset_of_utc = (\<lambda>_. tza), offset_of_local = (\<lambda>_. tza)\<rparr>"

definition LocalTime :: "zone \<Rightarrow> int \<Rightarrow> int" where
  "LocalTime z t = t + offset_of_utc z t"

definition UTC :: "zone \<Rightarrow> int \<Rightarrow> int" where
  "UTC z t = t - offset_of_local z t"

text \<open>
  \<open>new Date(year, month, date)\<close>, with a year from 0 to 99 read as a year of the twentieth
  century, and the four methods of \<open>Date\<close> that the script calls, on the time value of the
  object.
\<close>

definition new_Date :: "zone \<Rightarrow> int \<Rightarrow> int \<Rightarrow> int \<Rightarrow> int" where
  "new_Date z y m dt =
     (let yr = (if 0 \<le> y \<and> y \<le> 99 then 1900 + y else y)
      in UTC z (MakeDate (MakeDay yr m dt) 0))"

definition getFullYear :: "zone \<Rightarrow> int \<Rightarrow> int" where
  "getFullYear z tv = YearFromTime (LocalTime z tv)"

definition getMonth :: "zone \<Rightarrow> int \<Rightarrow> int" where
  "getMonth z tv = MonthFromTime (LocalTime z tv)"

definition getDate :: "zone \<Rightarrow> int \<Rightarrow> int" where
  "getDate z tv = DateFromTime (LocalTime z tv)"

definition setDate :: "zone \<Rightarrow> int \<Rightarrow> int \<Rightarrow> int" where
  "setDate z tv dt =
     (let t = LocalTime z tv
      in UTC z (MakeDate (MakeDay (YearFromTime t) (MonthFromTime t) dt) (TimeWithinDay t)))"

definition digit_chr :: "nat \<Rightarrow> jschar" where
  "digit_chr n = of_nat (48 + n)"

fun digits_of :: "nat \<Rightarrow> jsstring" where
  "digits_of n = (if n < 10 then [digit_chr n] else digits_of (n div 10) @ [digit_chr (n mod 10)])"

declare digits_of.simps [simp del]

definition js_String :: "int \<Rightarrow> jsstring" where
  "js_String i = (if i < 0 then 0x2D # digits_of (nat (- i)) else digits_of (nat i))"

definition js_Number :: "jsstring \<Rightarrow> int" where
  "js_Number ds = foldl (\<lambda>a c. 10 * a + (uint c - 48)) 0 ds"

definition strict_date_rx :: "atom list" where
  "strict_date_rx = [Digits 4 4, Chr ch_year, Digits 2 2, Chr ch_month, Digits 2 2, Chr ch_day]"

definition getNextRenewAvailableDate :: "zone \<Rightarrow> jsstring \<Rightarrow> jsstring" where
  "getNextRenewAvailableDate z chineseDate =
     (case regex_exec strict_date_rx chineseDate of
        None \<Rightarrow> unknown_str
      | Some m \<Rightarrow>
          (let y = m ! 0; mo = m ! 2; d = m ! 4;
               dt0 = new_Date z (js_Number y) (js_Number mo - 1) (js_Number d);
               dt = setDate z dt0 (getDate z dt0 - 1)
           in js_String (getFullYear z dt) @ [ch_year]
                @ padStart 2 [ch_zero] (js_String (getMonth z dt + 1)) @ [ch_month]
                @ padStart 2 [ch_zero] (js_String (getDate z dt)) @ [ch_day]))"

section \<open>The renewal script\<close>

subsection \<open>More strings\<close>

text \<open>
  \<open>String.prototype.trim\<close> removes white space and line terminators at both ends;
  \<open>String.prototype.includes\<close> tests for a substring.
\<close>

definition is_space :: "jschar \<Rightarrow> bool" where
  "is_space c \<longleftrightarrow>
     c \<in> set [0x09, 0x0A, 0x0B, 0x0C, 0x0D, 0x20, 0xA0, 0x1680, 0x2028, 0x2029, 0x202F,
                0x205F, 0x3000, 0xFEFF]
       \<or> (0x2000 \<le> c \<and> c \<le> 0x200A)"

definition trim :: "jsstring \<Rightarrow> jsstring" where
  "trim s = rev (dropWhile is_space (rev (dropWhile is_space s)))"

fun starts_with :: "jsstring \<Rightarrow> jsstring \<Rightarrow> bool" where
  "starts_with [] s = True"
| "starts_with (p # ps) [] = False"
| "starts_with (p # ps) (x # xs) = (p = x \<and> starts_with ps xs)"

fun js_includes :: "jsstring \<Rightarrow> jsstring \<Rightarrow> bool" where
  "js_includes sub [] = starts_with sub []"
| "js_includes sub (x # xs) = (starts_with sub (x # xs) \<or> js_includes sub xs)"

text \<open>
  The marker text of line 271, by which the page says that renewal is possible only from
  one day before expiry, and the text of line 275 that follows the date from which renewal
  can be tried. The regular expression of line 275 is the date pattern followed by that
  text; its one capture group spans the first six atoms.
\<close>

definition not_yet_marker :: jsstring where
  "not_yet_marker =
     [0x5229, 0x7528, 0x671F, 0x9650, 0x306E, 0x0031, 0x65E5, 0x524D, 0x304B, 0x3089,
      0x66F4, 0x65B0, 0x624B, 0x7D9A, 0x304D, 0x304C, 0x53EF, 0x80FD, 0x3067, 0x3059]"

definition try_later_suffix :: jsstring where
  "try_later_suffix =
     [0x4EE5, 0x964D, 0x306B, 0x304A, 0x8A66, 0x3057, 0x304F, 0x3060, 0x3055, 0x3044]"

definition eligible_rx :: "atom list" where
  "eligible_rx = date_rx @ map Chr try_later_suffix"

subsection \<open>Effects, environment and state\<close>

text \<open>
  A thrown error is one of the two errors the script raises itself (line 267: the CAPTCHA
  was not solved; line 315: no expiration date after renewal) or an error raised by the
  browser, the file system or the network, with its message.
\<close>

datatype exn = CaptchaUnsolved | ExpireDateNotFound | External jsstring

text \<open>
  The two pages the script opens, the page elements it addresses, and the two files it
  writes with \<open>fs.writeFileSync\<close>.
\<close>

datatype url = LoginUrl | PanelUrl

datatype selector =
    MemberId | UserPassword | LoginButton | ContractMenuIcon | ContractInfo | Th
  | RenewButton | ContinueFreeVps | ConfirmContinue | CaptchaInput

datatype fname = ExpireTxt | NoCaptchaHtml

text \<open>
  The texts the script composes are template literals: fixed text with holes. A message is
  modelled by the template it comes from and the values of its holes; it is never the
  empty string. \<open>NotYetMsg\<close> (line 279) carries the date from which renewal is possible,
  the current expiration date and the time; \<open>SuccessMsg\<close> (line 301) the new expiration
  date, the next renewal date and the time; \<open>FailMsg\<close> (line 311) the unchanged expiration
  date and the time; \<open>ErrorMsg\<close> (line 321) the error and the time. The status of the
  upload is one of the two texts of \<open>uploadToWebDAV\<close>. The final notification is the error
  or information message, with the upload status appended when there is one, or the upload
  status alone (lines 338 to 350).
\<close>

datatype message =
    NotYetMsg jsstring jsstring jsstring
  | SuccessMsg jsstring jsstring jsstring
  | FailMsg jsstring jsstring
  | ErrorMsg exn jsstring

datatype webdav_message = UploadOk | UploadFailed jsstring

datatype notification =
    Body message
  | BodyWithUpload message webdav_message
  | UploadOnly webdav_message

text \<open>
  The effects of the script on the browser, the file system and the network, in the order
  in which they happen. \<open>ClickAndWaitNav\<close> is the click of line 184 together with the wait
  for navigation it is combined with; \<open>SubmitCaptcha\<close> is the click of line 253 raced
  against the wait for navigation of line 252. Console output and the passing of time
  other than the explicit sleeps are not modelled.
\<close>

datatype event =
    Goto url
  | Fill selector jsstring
  | Click selector
  | ClickAndWaitNav selector
  | WaitForNavigation
  | WaitForSelector selector
  | Sleep nat
  | GetExpirationDate
  | QueryCaptchaImg
  | ReadImgSrc
  | FetchRecognize jsstring
  | Screenshot nat
  | EvaluateAutoSubmit
  | SubmitCaptcha
  | Reload
  | GetPageContent
  | GetBodyText
  | ReadFile fname
  | WriteFile fname jsstring
  | RecorderStop
  | BrowserClose
  | WebDAVPut
  | TelegramPost notification

text \<open>
  Everything the script observes. \<open>fails k\<close> tells whether the effect that is the
  \<open>k\<close>-th of the run (counting from 0) throws, and with which message; \<open>clock k\<close> is
  the result of \<open>getBeijingTimeString\<close> when \<open>k\<close> effects have happened. The two
  results of \<open>getExpirationDate\<close>, which catches its own errors, are
  \<open>currentExpireDateRaw\<close> (line 199) and \<open>newExpireDateRaw\<close> (line 295). For each
  attempt of the CAPTCHA loop, \<open>captchaImg\<close> is the source of the inline image found by
  line 212, if any, \<open>recognized\<close> the text answered by the recognition service (\<open>None\<close>
  when the request fails), and \<open>navigated\<close> tells whether the wait for navigation of line
  252 was fulfilled. \<open>bodyText\<close> is the page text read at line 270. The process runs
  in a time zone with the fixed offset \<open>localTZA\<close>.
\<close>

record env =
  fails :: "nat \<Rightarrow> jsstring option"
  clock :: "nat \<Rightarrow> jsstring"
  email :: jsstring
  password :: jsstring
  currentExpireDateRaw :: jsstring
  newExpireDateRaw :: jsstring
  captchaImg :: "nat \<Rightarrow> jsstring option"
  recognized :: "nat \<Rightarrow> jsstring option"
  navigated :: "nat \<Rightarrow> bool"
  pageContent :: jsstring
  bodyText :: jsstring
  localTZA :: int
  recordingExists :: bool
  webdavConfigured :: bool
  webdavFailure :: "jsstring option"
  telegramConfigured :: bool

text \<open>
  The state: the files written with \<open>fs.writeFileSync\<close> (\<open>expire.txt\<close> holds the
  persisted last-known expiration date), the effects so far, and the two message variables
  of lines 170 and 171, where \<open>None\<close> stands for the empty string.
\<close>

record state =
  files :: "fname \<Rightarrow> jsstring option"
  trace :: "event list"
  infoMessage :: "message option"
  scriptErrorMessage :: "message option"

text \<open>
  A piece of script takes the state and returns the new state with a value, or with the
  error it threw (\<open>Inl\<close>). \<open>andThen\<close> is sequencing: an error ends the sequence.
  \<open>perform\<close> is an awaited call that may throw; \<open>emit\<close> is an effect that does not.
\<close>

type_synonym 'a io = "state \<Rightarrow> (exn + 'a) \<times> state"

definition ok :: "'a \<Rightarrow> 'a io" where
  "ok x s = (Inr x, s)"

definition throw :: "exn \<Rightarrow> 'a io" where
  "throw e s = (Inl e, s)"

definition andThen :: "'a io \<Rightarrow> ('a \<Rightarrow> 'b io) \<Rightarrow> 'b io" where
  "andThen m f s = (case m s of (Inl e, s') \<Rightarrow> (Inl e, s') | (Inr x, s') \<Rightarrow> f x s')"

fun steps :: "unit io list \<Rightarrow> unit io" where
  "steps [] = ok ()"
| "steps (m # ms) = andThen m (\<lambda>_. steps ms)"

definition emit :: "event \<Rightarrow> unit io" where
  "emit ev s = (Inr (), s\<lparr>trace := trace s @ [ev]\<rparr>)"

definition perform :: "env \<Rightarrow> event \<Rightarrow> unit io" where
  "perform env ev s =
     (case fails env (length (trace s)) of
        None \<Rightarrow> (Inr (), s\<lparr>trace := trace s @ [ev]\<rparr>)
      | Some msg \<Rightarrow> (Inl (External msg), s\<lparr>trace := trace s @ [ev]\<rparr>))"

definition writeFileSync :: "env \<Rightarrow> fname \<Rightarrow> jsstring \<Rightarrow> unit io" where
  "writeFileSync env f content =
     andThen (perform env (WriteFile f content))
       (\<lambda>_ s. (Inr (), s\<lparr>files := (files s)(f \<mapsto> content)\<rparr>))"

definition getBeijingTimeString :: "env \<Rightarrow> jsstring io" where
  "getBeijingTimeString env s = (Inr (clock env (length (trace s))), s)"

definition setInfoMessage :: "message \<Rightarrow> unit io" where
  "setInfoMessage m s = (Inr (), s\<lparr>infoMessage := Some m\<rparr>)"

subsection \<open>The CAPTCHA loop\<close>

text \<open>
  One turn of the loop of lines 211 to 264. Without an inline image the page is saved and
  the loop ends solved. Otherwise the image is sent to the recognition service; a failed
  request, an empty answer or an answer shorter than 4 takes a screenshot and continues
  with the next attempt. A longer answer is typed in and submitted; when the navigation is
  observed the loop ends solved, otherwise the page is reloaded for the next attempt.
\<close>

definition maxCaptchaTries :: nat where
  "maxCaptchaTries = 3"

datatype loop_step = Break_solved | Continue

definition captchaAttempt :: "env \<Rightarrow> nat \<Rightarrow> loop_step io" where
  "captchaAttempt env attempt =
     andThen (perform env QueryCaptchaImg) (\<lambda>_.
       case captchaImg env attempt of
         None \<Rightarrow>
           andThen (perform env GetPageContent) (\<lambda>_.
           andThen (writeFileSync env NoCaptchaHtml (pageContent env)) (\<lambda>_.
           ok Break_solved))
       | Some base64 \<Rightarrow>
           andThen (perform env ReadImgSrc) (\<lambda>_.
           andThen (emit (FetchRecognize base64)) (\<lambda>_.
             case recognized env attempt of
               None \<Rightarrow> andThen (perform env (Screenshot attempt)) (\<lambda>_. ok Continue)
             | Some code \<Rightarrow>
                 if code = [] \<or> length code < 4
                 then andThen (perform env (Screenshot attempt)) (\<lambda>_. ok Continue)
                 else
                   andThen (perform env (Fill CaptchaInput code)) (\<lambda>_.
                   andThen (perform env EvaluateAutoSubmit) (\<lambda>_.
                   andThen (emit SubmitCaptcha) (\<lambda>_.
                     if navigated env attempt then ok Break_solved
                     else andThen (perform env Reload) (\<lambda>_. ok Continue)))))))"

text \<open>\<open>for (let attempt = 1; attempt <= maxCaptchaTries; attempt++)\<close>; the result is \<open>solved\<close>.\<close>

function captchaLoop :: "env \<Rightarrow> nat \<Rightarrow> bool io" where
  "captchaLoop env attempt s =
     (if attempt \<le> maxCaptchaTries
      then (case captchaAttempt env attempt s of
              (Inl e, s') \<Rightarrow> (Inl e, s')
            | (Inr Break_solved, s') \<Rightarrow> (Inr True, s')
            | (Inr Continue, s') \<Rightarrow> captchaLoop env (attempt + 1) s')
      else (Inr False, s))"
  by pat_completeness auto
termination
  by (relation "measure (\<lambda>(env, attempt, s). Suc maxCaptchaTries - attempt)") auto

declare captchaLoop.simps [simp del]

text \<open>Lines 209 to 268: the loop from attempt 1, then the error of line 267 when not solved.\<close>

definition solveCaptcha :: "env \<Rightarrow> unit io" where
  "solveCaptcha env =
     andThen (captchaLoop env 1) (\<lambda>solved. if \<not> solved then throw CaptchaUnsolved else ok ())"

subsection \<open>The workflow\<close>

text \<open>
  The decision of lines 300, 310 and 314, on the persisted date as read from the file and
  the normalised date read after the renewal.
\<close>

datatype outcome = Success | Unchanged | FatalError

definition classifyOutcome :: "jsstring \<Rightarrow> jsstring \<Rightarrow> outcome" where
  "classifyOutcome lastExpireDate newExpireDate =
     (if newExpireDate \<noteq> [] \<and> newExpireDate \<noteq> formatChineseDate lastExpireDate then Success
      else if newExpireDate \<noteq> [] then Unchanged
      else FatalError)"

text \<open>
  The same decision in the earlier version of the script (\<open>part_000\<close>, lines 161 to
  172), which compares the two strings as they are.
\<close>

definition classifyOutcome_legacy :: "jsstring \<Rightarrow> jsstring \<Rightarrow> outcome" where
  "classifyOutcome_legacy lastExpireDate newExpireDate =
     (if newExpireDate \<noteq> [] \<and> newExpireDate \<noteq> lastExpireDate then Success
      else if newExpireDate \<noteq> [] then Unchanged
      else FatalError)"

text \<open>Lines 174 to 176: the persisted date, trimmed, or the empty string without a file.\<close>

definition readLastExpireDate :: "env \<Rightarrow> jsstring io" where
  "readLastExpireDate env s =
     (case files s ExpireTxt of
        None \<Rightarrow> ok [] s
      | Some content \<Rightarrow> andThen (perform env (ReadFile ExpireTxt)) (\<lambda>_. ok (trim content)) s)"

text \<open>Lines 179 to 196 and lines 202 to 205.\<close>

definition loginAndOpenContract :: "env \<Rightarrow> unit io" where
  "loginAndOpenContract env =
     steps [perform env (Goto LoginUrl),
            perform env (Fill MemberId (email env)),
            perform env (Fill UserPassword (password env)),
            perform env (ClickAndWaitNav LoginButton),
            perform env (Goto PanelUrl),
            perform env (Click ContractMenuIcon),
            perform env (Click ContractInfo),
            perform env WaitForNavigation,
            perform env (WaitForSelector Th),
            emit (Sleep 5000)]"

definition initiateRenewal :: "env \<Rightarrow> unit io" where
  "initiateRenewal env =
     steps [perform env (Click RenewButton),
            emit (Sleep 3000),
            perform env (Click ContinueFreeVps),
            perform env WaitForNavigation]"

text \<open>Lines 273 to 280, the branch of a page that carries the marker.\<close>

definition reportNotYet :: "env \<Rightarrow> jsstring \<Rightarrow> unit io" where
  "reportNotYet env currentExpireDate =
     (let renewAvailableDate =
            (case regex_exec eligible_rx (bodyText env) of
               None \<Rightarrow> []
             | Some m \<Rightarrow> formatChineseDate (concat (take 6 m)))
      in andThen (getBeijingTimeString env) (\<lambda>now.
           setInfoMessage
             (NotYetMsg (if renewAvailableDate = [] then unknown_str else renewAvailableDate)
                        (if currentExpireDate = [] then unknown_str else currentExpireDate)
                        now)))"

text \<open>Lines 283 to 316, the branch of a page without the marker.\<close>

definition confirmAndVerify :: "env \<Rightarrow> jsstring \<Rightarrow> unit io" where
  "confirmAndVerify env lastExpireDate =
     andThen
       (steps [perform env (Click ConfirmContinue),
               perform env WaitForNavigation,
               perform env (Goto PanelUrl),
               perform env (Click ContractMenuIcon),
               perform env (Click ContractInfo),
               perform env WaitForNavigation,
               perform env (WaitForSelector Th),
               emit (Sleep 3000),
               emit GetExpirationDate])
       (\<lambda>_.
          let newExpireDate = formatChineseDate (newExpireDateRaw env);
              nextRenewDate = getNextRenewAvailableDate (fixed_zone (localTZA env)) newExpireDate
          in case classifyOutcome lastExpireDate newExpireDate of
               Success \<Rightarrow>
                 andThen (getBeijingTimeString env) (\<lambda>now.
                 andThen (setInfoMessage (SuccessMsg newExpireDate nextRenewDate now)) (\<lambda>_.
                 writeFileSync env ExpireTxt newExpireDate))
             | Unchanged \<Rightarrow>
                 andThen (getBeijingTimeString env) (\<lambda>now.
                 setInfoMessage (FailMsg newExpireDate now))
             | FatalError \<Rightarrow> throw ExpireDateNotFound)"

text \<open>Lines 270 to 317, and the whole \<open>try\<close> block, lines 174 to 317.\<close>

definition afterCaptcha :: "env \<Rightarrow> jsstring \<Rightarrow> jsstring \<Rightarrow> unit io" where
  "afterCaptcha env lastExpireDate currentExpireDate =
     andThen (perform env GetBodyText) (\<lambda>_.
       if js_includes not_yet_marker (bodyText env)
       then reportNotYet env currentExpireDate
       else confirmAndVerify env lastExpireDate)"

definition tryBlock :: "env \<Rightarrow> unit io" where
  "tryBlock env =
     andThen (readLastExpireDate env) (\<lambda>lastExpireDate.
     andThen (loginAndOpenContract env) (\<lambda>_.
     andThen (emit GetExpirationDate) (\<lambda>_.
     andThen (initiateRenewal env) (\<lambda>_.
     andThen (solveCaptcha env) (\<lambda>_.
     afterCaptcha env lastExpireDate (formatChineseDate (currentExpireDateRaw env)))))))"

subsection \<open>Error handler and cleanup\<close>

text \<open>
  The \<open>catch\<close> block stores the error message. \<open>uploadToWebDAV\<close> and
  \<open>sendTelegramMessage\<close> catch their own errors: an upload that fails yields the failure
  text, a notification that fails is only logged; without configuration neither does
  anything. The \<open>finally\<close> block stops the recorder, closes the browser, uploads the
  recording when it exists, composes the final notification and sends it when it is not
  empty.
\<close>

definition catchBlock :: "env \<Rightarrow> exn \<Rightarrow> unit io" where
  "catchBlock env e =
     andThen (getBeijingTimeString env) (\<lambda>now s.
       (Inr (), s\<lparr>scriptErrorMessage := Some (ErrorMsg e now)\<rparr>))"

definition uploadToWebDAV :: "env \<Rightarrow> webdav_message option io" where
  "uploadToWebDAV env =
     (if \<not> webdavConfigured env then ok None
      else andThen (emit WebDAVPut) (\<lambda>_.
             case webdavFailure env of
               None \<Rightarrow> ok (Some UploadOk)
             | Some msg \<Rightarrow> ok (Some (UploadFailed msg))))"

definition sendTelegramMessage :: "env \<Rightarrow> notification \<Rightarrow> unit io" where
  "sendTelegramMessage env n =
     (if \<not> telegramConfigured env then ok () else emit (TelegramPost n))"

definition composeNotification ::
  "message option \<Rightarrow> message option \<Rightarrow> webdav_message option \<Rightarrow> notification option" where
  "composeNotification scriptError info webdavMessage =
     (case scriptError of
        Some e \<Rightarrow> (case webdavMessage of None \<Rightarrow> Some (Body e)
                                         | Some u \<Rightarrow> Some (BodyWithUpload e u))
      | None \<Rightarrow>
          (case info of
             Some i \<Rightarrow> (case webdavMessage of None \<Rightarrow> Some (Body i)
                                              | Some u \<Rightarrow> Some (BodyWithUpload i u))
           | None \<Rightarrow> (case webdavMessage of None \<Rightarrow> None | Some u \<Rightarrow> Some (UploadOnly u))))"

definition finallyBlock :: "env \<Rightarrow> unit io" where
  "finallyBlock env =
     andThen (emit (Sleep 5000)) (\<lambda>_.
     andThen (perform env RecorderStop) (\<lambda>_.
     andThen (perform env BrowserClose) (\<lambda>_.
     andThen (if recordingExists env then uploadToWebDAV env else ok None) (\<lambda>webdavMessage s.
       (case composeNotification (scriptErrorMessage s) (infoMessage s) webdavMessage of
          None \<Rightarrow> ok () s
        | Some finalNotification \<Rightarrow> sendTelegramMessage env finalNotification s)))))"

text \<open>
  The \<open>try\<close>, \<open>catch\<close>, \<open>finally\<close> statement of lines 173 to 355. A run starts
  when browser, page and recorder exist (lines 148 to 166), from the files on disk, with no
  effect yet and both message variables empty.
\<close>

definition script :: "env \<Rightarrow> unit io" where
  "script env s =
     (case tryBlock env s of
        (Inl e, s') \<Rightarrow> andThen (catchBlock env e) (\<lambda>_. finallyBlock env) s'
      | (Inr _, s') \<Rightarrow> finallyBlock env s')"

definition initial :: "(fname \<Rightarrow> jsstring option) \<Rightarrow> state" where
  "initial fs = \<lparr>files = fs, trace = [], infoMessage = None, scriptErrorMessage = None\<rparr>"

section \<open>Runs of the script\<close>

text \<open>
  The definitions of this section describe runs; they are not part of the script.
  The persisted date of a run is the content of \<open>expire.txt\<close>, trimmed, or the empty
  string. A run ends in one of four terminal states, read off the two message variables in
  the order in which the final notification reads them: an error; a successful renewal; an
  unchanged date; not yet eligible.
\<close>

definition persistedDate :: "(fname \<Rightarrow> jsstring option) \<Rightarrow> jsstring" where
  "persistedDate fs = (case fs ExpireTxt of None \<Rightarrow> [] | Some content \<Rightarrow> trim content)"

datatype terminal = Terminal_Success | Terminal_Unchanged | Terminal_NotYetEligible | Terminal_Error

definition terminal_state :: "state \<Rightarrow> terminal option" where
  "terminal_state s =
     (case scriptErrorMessage s of
        Some e \<Rightarrow> Some Terminal_Error
      | None \<Rightarrow>
          (case infoMessage s of
             Some (SuccessMsg c n t) \<Rightarrow> Some Terminal_Success
           | Some (FailMsg c t) \<Rightarrow> Some Terminal_Unchanged
           | Some (NotYetMsg a b t) \<Rightarrow> Some Terminal_NotYetEligible
           | Some (ErrorMsg e t) \<Rightarrow> None
           | None \<Rightarrow> None))"

text \<open>
  An attempt of the CAPTCHA loop is unsuccessful when an inline image is present and the
  recognition request fails, or its answer is shorter than 4, or the submission is not
  followed by a navigation.
\<close>

definition attempt_unsuccessful :: "env \<Rightarrow> nat \<Rightarrow> bool" where
  "attempt_unsuccessful env a \<longleftrightarrow>
     captchaImg env a \<noteq> None
       \<and> (case recognized env a of
             None \<Rightarrow> True
           | Some code \<Rightarrow> length code < 4 \<or> \<not> navigated env a)"

text \<open>
  The effects by phase: those before the CAPTCHA loop, those of the loop (a code is typed
  in only when it has at least 4 characters), those after the loop, and those of the
  \<open>finally\<close> block.
\<close>

fun pre_event :: "event \<Rightarrow> bool" where
  "pre_event (Goto u) = True"
| "pre_event (Fill sel v) = (sel = MemberId \<or> sel = UserPassword)"
| "pre_event (Click sel) =
     (sel = ContractMenuIcon \<or> sel = ContractInfo \<or> sel = RenewButton \<or> sel = ContinueFreeVps)"
| "pre_event (ClickAndWaitNav sel) = (sel = LoginButton)"
| "pre_event WaitForNavigation = True"
| "pre_event (WaitForSelector sel) = True"
| "pre_event (Sleep n) = True"
| "pre_event GetExpirationDate = True"
| "pre_event (ReadFile f) = True"
| "pre_event _ = False"

fun loop_event :: "event \<Rightarrow> bool" where
  "loop_event QueryCaptchaImg = True"
| "loop_event ReadImgSrc = True"
| "loop_event (FetchRecognize b) = True"
| "loop_event (Screenshot n) = True"
| "loop_event EvaluateAutoSubmit = True"
| "loop_event SubmitCaptcha = True"
| "loop_event Reload = True"
| "loop_event GetPageContent = True"
| "loop_event (WriteFile f c) = (f = NoCaptchaHtml)"
| "loop_event (Fill sel c) = (sel = CaptchaInput \<and> 4 \<le> length c)"
| "loop_event _ = False"

fun post_event :: "event \<Rightarrow> bool" where
  "post_event GetBodyText = True"
| "post_event (Click sel) = (sel = ConfirmContinue \<or> sel = ContractMenuIcon \<or> sel = ContractInfo)"
| "post_event WaitForNavigation = True"
| "post_event (Goto u) = True"
| "post_event (WaitForSelector sel) = True"
| "post_event (Sleep n) = True"
| "post_event GetExpirationDate = True"
| "post_event (WriteFile f c) = (f = ExpireTxt)"
| "post_event _ = False"

fun cleanup_event :: "event \<Rightarrow> bool" where
  "cleanup_event (Sleep n) = True"
| "cleanup_event RecorderStop = True"
| "cleanup_event BrowserClose = True"
| "cleanup_event WebDAVPut = True"
| "cleanup_event (TelegramPost n) = True"
| "cleanup_event _ = False"

text \<open>Probes for the image, recognition requests, submissions and notifications.\<close>

fun is_query :: "event \<Rightarrow> bool" where
  "is_query QueryCaptchaImg = True"
| "is_query _ = False"

fun is_fetch :: "event \<Rightarrow> bool" where
  "is_fetch (FetchRecognize b) = True"
| "is_fetch _ = False"

fun is_submit :: "event \<Rightarrow> bool" where
  "is_submit SubmitCaptcha = True"
| "is_submit _ = False"

fun is_telegram :: "event \<Rightarrow> bool" where
  "is_telegram (TelegramPost n) = True"
| "is_telegram _ = False"

text \<open>
  The button that an effect clicks, when it is a click. The click of line 253, inside the
  CAPTCHA loop, and the confirmation click of line 284 are clicks on the same locator, the
  button that continues the free plan.
\<close>

fun clicked :: "event \<Rightarrow> selector option" where
  "clicked (Click sel) = Some sel"
| "clicked (ClickAndWaitNav sel) = Some sel"
| "clicked SubmitCaptcha = Some ConfirmContinue"
| "clicked _ = None"

text \<open>
  A stretch of loop effects with at most \<open>n\<close> probes, requests and submissions; a step
  that leaves \<open>expire.txt\<close> and the two message variables as they are; a step that
  moreover adds only effects of one kind.
\<close>

definition loop_trace :: "nat \<Rightarrow> event list \<Rightarrow> bool" where
  "loop_trace n evs \<longleftrightarrow>
     list_all loop_event evs
       \<and> length (filter is_query evs) \<le> n
       \<and> length (filter is_fetch evs) \<le> n
       \<and> length (filter is_submit evs) \<le> n"

definition unchanged :: "state \<Rightarrow> state \<Rightarrow> bool" where
  "unchanged s s' \<longleftrightarrow>
     files s' ExpireTxt = files s ExpireTxt \<and> infoMessage s' = infoMessage s
       \<and> scriptErrorMessage s' = scriptErrorMessage s"

definition quiet :: "(event \<Rightarrow> bool) \<Rightarrow> state \<Rightarrow> state \<Rightarrow> bool" where
  "quiet P s s' \<longleftrightarrow>
     (\<exists>evs. trace s' = trace s @ evs \<and> list_all P evs)
       \<and> files s' ExpireTxt = files s ExpireTxt
       \<and> infoMessage s' = infoMessage s
       \<and> scriptErrorMessage s' = scriptErrorMessage s"

definition keeps :: "(event \<Rightarrow> bool) \<Rightarrow> 'a io \<Rightarrow> bool" where
  "keeps P m \<longleftrightarrow> (\<forall>s. quiet P s (snd (m s)))"

text \<open>A step that, from whatever state, does not end with the error \<open>e\<close>.\<close>

definition never_raises :: "exn \<Rightarrow> 'a io \<Rightarrow> bool" where
  "never_raises e m \<longleftrightarrow> (\<forall>s. fst (m s) \<noteq> Inl e)"

text \<open>
  The effects of a run in which nothing throws: up to the CAPTCHA loop, from the reading of
  the page text to the second reading of the expiration date, and in the \<open>finally\<close>
  block.
\<close>

definition opening_trace :: "(fname \<Rightarrow> jsstring option) \<Rightarrow> env \<Rightarrow> event list" where
  "opening_trace fs env =
     (if fs ExpireTxt = None then [] else [ReadFile ExpireTxt])
       @ [Goto LoginUrl, Fill MemberId (email env), Fill UserPassword (password env),
          ClickAndWaitNav LoginButton, Goto PanelUrl, Click ContractMenuIcon,
          Click ContractInfo, WaitForNavigation, WaitForSelector Th, Sleep 5000,
          GetExpirationDate, Click RenewButton, Sleep 3000, Click ContinueFreeVps,
          WaitForNavigation]"

definition confirm_trace :: "event list" where
  "confirm_trace =
     [GetBodyText, Click ConfirmContinue, WaitForNavigation, Goto PanelUrl,
      Click ContractMenuIcon, Click ContractInfo, WaitForNavigation, WaitForSelector Th,
      Sleep 3000, GetExpirationDate]"

definition cleanup_trace :: "env \<Rightarrow> state \<Rightarrow> event list" where
  "cleanup_trace env s =
     [Sleep 5000, RecorderStop, BrowserClose]
       @ (if recordingExists env \<and> webdavConfigured env then [WebDAVPut] else [])
       @ (case composeNotification (scriptErrorMessage s) (infoMessage s)
                 (if recordingExists env \<and> webdavConfigured env
                  then (case webdavFailure env of None \<Rightarrow> Some UploadOk
                                                 | Some msg \<Rightarrow> Some (UploadFailed msg))
                  else None) of
            None \<Rightarrow> []
          | Some n \<Rightarrow> if telegramConfigured env then [TelegramPost n] else [])"

text \<open>
  The strings of the scenarios: the dates of 7 July, 6 August, 7 August and 6 September
  2025 in the zero-padded notation of the page, the dates of 7 July and 7 August 2025
  written with hyphens, and two answers of the recognition service, \<open>1234\<close> and
  \<open>123\<close>.
\<close>

definition date_2025_08_07 :: jsstring where
  "date_2025_08_07 = [0x32, 0x30, 0x32, 0x35, 0x5E74, 0x30, 0x38, 0x6708, 0x30, 0x37, 0x65E5]"

definition date_2025_08_06 :: jsstring where
  "date_2025_08_06 = [0x32, 0x30, 0x32, 0x35, 0x5E74, 0x30, 0x38, 0x6708, 0x30, 0x36, 0x65E5]"

definition date_2025_07_07 :: jsstring where
  "date_2025_07_07 = [0x32, 0x30, 0x32, 0x35, 0x5E74, 0x30, 0x37, 0x6708, 0x30, 0x37, 0x65E5]"

definition date_2025_09_06 :: jsstring where
  "date_2025_09_06 = [0x32, 0x30, 0x32, 0x35, 0x5E74, 0x30, 0x39, 0x6708, 0x30, 0x36, 0x65E5]"

definition iso_2025_07_07 :: jsstring where
  "iso_2025_07_07 = [0x32, 0x30, 0x32, 0x35, 0x2D, 0x30, 0x37, 0x2D, 0x30, 0x37]"

definition iso_2025_08_07 :: jsstring where
  "iso_2025_08_07 = [0x32, 0x30, 0x32, 0x35, 0x2D, 0x30, 0x38, 0x2D, 0x30, 0x37]"

definition code_1234 :: jsstring where
  "code_1234 = [0x31, 0x32, 0x33, 0x34]"

definition code_123 :: jsstring where
  "code_123 = [0x31, 0x32, 0x33]"

text \<open>
  An environment in which nothing throws and no CAPTCHA is shown; the page shows the
  expiration date of 7 July 2025 before the renewal and of 7 August 2025 after it.
\<close>

definition plain_env :: env where
  "plain_env =
     \<lparr>fails = (\<lambda>_. None), clock = (\<lambda>_. []), email = [], password = [],
      currentExpireDateRaw = [0x32, 0x30, 0x32, 0x35, 0x5E74, 0x37, 0x6708, 0x37, 0x65E5],
      newExpireDateRaw = date_2025_08_07,
      captchaImg = (\<lambda>_. None), recognized = (\<lambda>_. None), navigated = (\<lambda>_. False),
      pageContent = [], bodyText = [], localTZA = 0, recordingExists = True,
      webdavConfigured = False, webdavFailure = None, telegramConfigured = True\<rparr>"

text \<open>
  The date shown as the first day on which renewal is possible: the variable
  \<open>renewAvailableDate\<close> of lines 273 to 278 as the message of line 279 prints it.
\<close>

definition eligibleDate :: "jsstring \<Rightarrow> jsstring" where
  "eligibleDate text =
     (let renewAvailableDate =
            (case regex_exec eligible_rx text of
               None \<Rightarrow> []
             | Some m \<Rightarrow> formatChineseDate (concat (take 6 m)))
      in if renewAvailableDate = [] then unknown_str else renewAvailableDate)"

text \<open>
  A disk that holds only \<open>expire.txt\<close>, and four more environments, each the plain one
  with a change: the page names 6 September 2025 as the first day on which renewal is
  possible; the page shows a challenge image that is solved at once and then carries the
  marker; the recognition service answers every image with the empty string; it answers
  every image with three characters.
\<close>

definition only_expire_txt :: "jsstring \<Rightarrow> (fname \<rightharpoonup> jsstring)" where
  "only_expire_txt d = (\<lambda>_. None)(ExpireTxt \<mapsto> d)"

definition too_early_env :: env where
  "too_early_env =
     plain_env\<lparr>bodyText := not_yet_marker @ date_2025_09_06 @ try_later_suffix\<rparr>"

definition captcha_env :: env where
  "captcha_env =
     plain_env\<lparr>captchaImg := (\<lambda>_. Some [0x41]), recognized := (\<lambda>_. Some code_1234),
               navigated := (\<lambda>_. True), bodyText := not_yet_marker\<rparr>"

definition stuck_env :: env where
  "stuck_env = plain_env\<lparr>captchaImg := (\<lambda>_. Some [0x41]), recognized := (\<lambda>_. Some [])\<rparr>"

definition short_code_env :: env where
  "short_code_env =
     plain_env\<lparr>captchaImg := (\<lambda>_. Some [0x41]), recognized := (\<lambda>_. Some code_123)\<rparr>"

text \<open>
  Two more environments: in the first, every call that can throw does throw; in the second,
  the page shows no expiration date after the renewal, so that \<open>getExpirationDate\<close>
  returns the empty string (lines 125 and 128).
\<close>

definition broken_env :: env where
  "broken_env = plain_env\<lparr>fails := (\<lambda>_. Some [])\<rparr>"

definition no_date_env :: env where
  "no_date_env = plain_env\<lparr>newExpireDateRaw := []\<rparr>"

section \<open>The calendar and date strings of the specification\<close>

text \<open>
  The Gregorian calendar as the specification speaks of it: leap years, the length of each
  month, the dates that exist, and the day before a date. \<open>day_number\<close> is the number of
  days from the epoch to a date. These definitions are not taken from the script; the
  script's date arithmetic is compared with them.
\<close>

definition leap_year :: "int \<Rightarrow> bool" where
  "leap_year y \<longleftrightarrow> y mod 4 = 0 \<and> (y mod 100 \<noteq> 0 \<or> y mod 400 = 0)"

definition days_in_month :: "int \<Rightarrow> int \<Rightarrow> int" where
  "days_in_month y m =
     (if m = 2 then (if leap_year y then 29 else 28)
      else if m = 4 \<or> m = 6 \<or> m = 9 \<or> m = 11 then 30 else 31)"

definition valid_date :: "int \<Rightarrow> int \<Rightarrow> int \<Rightarrow> bool" where
  "valid_date y m d \<longleftrightarrow> 1 \<le> m \<and> m \<le> 12 \<and> 1 \<le> d \<and> d \<le> days_in_month y m"

definition prev_day :: "int \<Rightarrow> int \<Rightarrow> int \<Rightarrow> int \<times> int \<times> int" where
  "prev_day y m d =
     (if 1 < d then (y, m, d - 1)
      else if 1 < m then (y, m - 1, days_in_month y (m - 1))
      else (y - 1, 12, 31))"

definition day_number :: "int \<Rightarrow> int \<Rightarrow> int \<Rightarrow> int" where
  "day_number y m d = DayFromYear y + month_start (m - 1) (if leap_year y then 1 else 0) + d - 1"

text \<open>
  The zero-padded date string of a year, a month and a day: four digits, the year sign, two
  digits, the month sign, two digits, the day sign.
\<close>

definition chinese_date :: "int \<Rightarrow> int \<Rightarrow> int \<Rightarrow> jsstring" where
  "chinese_date y m d =
     padStart 4 [ch_zero] (js_String y) @ [ch_year]
       @ padStart 2 [ch_zero] (js_String m) @ [ch_month]
       @ padStart 2 [ch_zero] (js_String d) @ [ch_day]"

text \<open>
  A string contains a zero-padded date when, at some position, eleven code units follow
  that are four digits, the year sign, two digits, the month sign, two digits and the day
  sign.
\<close>

definition padded_date_prefix :: "jsstring \<Rightarrow> bool" where
  "padded_date_prefix s \<longleftrightarrow>
     11 \<le> length s \<and> list_all is_digit (take 4 s) \<and> s ! 4 = ch_year
       \<and> list_all is_digit (take 2 (drop 5 s)) \<and> s ! 7 = ch_month
       \<and> list_all is_digit (take 2 (drop 8 s)) \<and> s ! 10 = ch_day"

fun contains_padded_date :: "jsstring \<Rightarrow> bool" where
  "contains_padded_date [] = False"
| "contains_padded_date (x # xs) = (padded_date_prefix (x # xs) \<or> contains_padded_date xs)"

text \<open>
  The local midnight that begins day \<open>n\<close> (counted from the epoch) exists in a zone when
  the zone maps it to an instant that the zone shows as that midnight again; it does not
  exist when a transition of the zone skips it. In a zone with a fixed offset every local
  midnight exists. \<open>skipped_day_zone\<close> has the offset of 10 hours behind UTC up to the
  instant of 10:00 UTC on 30 December 2011 and of 14 hours ahead of UTC from then on, as
  the zone \<open>Pacific/Apia\<close> did: its local day of 30 December 2011 does not exist.
\<close>

definition local_midnight_exists :: "zone \<Rightarrow> int \<Rightarrow> bool" where
  "local_midnight_exists z n \<longleftrightarrow> LocalTime z (UTC z (n * msPerDay)) = n * msPerDay"

definition skipped_day_zone :: zone where
  "skipped_day_zone =
     \<lparr>offset_of_utc = (\<lambda>t. if t < 1325239200000 then - 36000000 else 50400000),
      offset_of_local = (\<lambda>t. if t < 1325239200000 + 50400000 then - 36000000 else 50400000)\<rparr>"

text \<open>
  The notice of a page that is not yet eligible, as the specification describes it: a date
  with four digits for the year and one or two digits for the month and for the day,
  followed by the words of line 275. The eligible date shown by a page text is the date of
  the first notice in it, with month and day padded to two digits, and the word for unknown
  when the text holds no notice. \<open>fits\<close> tells which pieces of text an element of a
  pattern stands for.
\<close>

definition date_fields :: "jsstring \<Rightarrow> jsstring \<Rightarrow> jsstring \<Rightarrow> bool" where
  "date_fields y mo d \<longleftrightarrow>
     length y = 4 \<and> list_all is_digit y
       \<and> 1 \<le> length mo \<and> length mo \<le> 2 \<and> list_all is_digit mo
       \<and> 1 \<le> length d \<and> length d \<le> 2 \<and> list_all is_digit d"

definition notice :: "jsstring \<Rightarrow> jsstring \<Rightarrow> jsstring \<Rightarrow> jsstring" where
  "notice y mo d = y @ [ch_year] @ mo @ [ch_month] @ d @ [ch_day] @ try_later_suffix"

definition eligible_date_shown :: "jsstring \<Rightarrow> jsstring \<Rightarrow> bool" where
  "eligible_date_shown text e \<longleftrightarrow>
     ((\<forall>pre y mo d post. date_fields y mo d \<longrightarrow> text \<noteq> pre @ notice y mo d @ post)
        \<longrightarrow> e = unknown_str)
     \<and> (\<forall>pre y mo d post.
           date_fields y mo d \<and> text = pre @ notice y mo d @ post
             \<and> (\<forall>pre' y' mo' d' post'.
                   date_fields y' mo' d' \<and> text = pre' @ notice y' mo' d' @ post'
                     \<longrightarrow> length pre \<le> length pre')
           \<longrightarrow> e = y @ [ch_year] @ padStart 2 [ch_zero] mo @ [ch_month]
                     @ padStart 2 [ch_zero] d @ [ch_day])"

fun fits :: "atom \<Rightarrow> jsstring \<Rightarrow> bool" where
  "fits (Chr c) piece = (piece = [c])"
| "fits (Digits lo hi) piece = (lo \<le> length piece \<and> length piece \<le> hi \<and> list_all is_digit piece)"

section \<open>Facts about the matcher\<close>

lemma first_some_map_Some:
  "first_some (map f ks) = Some m \<Longrightarrow> \<exists>k \<in> set ks. f k = Some m"
proof (induction ks)
  case Nil
  then show ?case by simp
next
  case (Cons k ks)
  then show ?case by (cases "f k") auto
qed

lemma take_all_digits:
  assumes "k \<le> length (takeWhile is_digit (take hi s))"
  shows "k \<le> hi \<and> k \<le> length s \<and> (\<forall>c \<in> set (take k s). is_digit c)"
proof -
  let ?t = "takeWhile is_digit (take hi s)"
  have len: "length ?t \<le> length (take hi s)" by (rule length_takeWhile_le)
  have pre: "take (length ?t) (take hi s) = ?t"
    by (metis takeWhile_eq_take)
  have bounds: "k \<le> hi" "k \<le> length s" using assms len by simp_all
  have "take k s = take k (take hi s)" using bounds by (simp add: min_def)
  also have "\<dots> = take k (take (length ?t) (take hi s))" using assms by (simp add: min_def)
  also have "\<dots> = take k ?t" by (simp only: pre)
  finally have "set (take k s) \<subseteq> set ?t" by (metis set_take_subset)
  moreover have "\<forall>c \<in> set ?t. is_digit c" by (meson set_takeWhileD)
  ultimately show ?thesis using bounds by auto
qed

lemma match_here_Chr_Some:
  "match_here (Chr c # ps) s = Some m \<Longrightarrow>
     \<exists>xs m'. s = c # xs \<and> match_here ps xs = Some m' \<and> m = [c] # m'"
  by (cases s) (auto split: if_splits)

lemma match_here_Digits_Some:
  assumes "match_here (Digits lo hi # ps) s = Some m"
  shows "\<exists>k m'. lo \<le> k \<and> k \<le> hi \<and> k \<le> length s \<and> (\<forall>c \<in> set (take k s). is_digit c)
           \<and> match_here ps (drop k s) = Some m' \<and> m = take k s # m'"
proof -
  let ?n = "length (takeWhile is_digit (take hi s))"
  from assms have
    "first_some (map (\<lambda>k. map_option ((#) (take k s)) (match_here ps (drop k s)))
                     (rev [lo ..< Suc ?n])) = Some m"
    by (simp only: match_here.simps Let_def)
  from first_some_map_Some [OF this] obtain k where k: "k \<in> set (rev [lo ..< Suc ?n])"
    and mk: "map_option ((#) (take k s)) (match_here ps (drop k s)) = Some m"
    by blast
  from k have "lo \<le> k" "k \<le> ?n" by auto
  with take_all_digits [of k hi s] mk show ?thesis by auto
qed

lemma match_here_Digits_max:
  assumes "length ds = hi" "lo \<le> hi" "\<forall>c \<in> set ds. is_digit c"
    and "match_here ps rest = Some m'"
  shows "match_here (Digits lo hi # ps) (ds @ rest) = Some (ds # m')"
proof -
  have "take hi (ds @ rest) = ds" using assms(1) by simp
  moreover have "takeWhile is_digit ds = ds"
    using assms(3) by (simp only: takeWhile_eq_all_conv)
  ultimately have tw: "takeWhile is_digit (take hi (ds @ rest)) = ds" by simp
  have n: "length (takeWhile is_digit (take hi (ds @ rest))) = hi"
    unfolding tw by (rule assms(1))
  have "rev [lo ..< Suc hi] = hi # rev [lo ..< hi]" using assms(2) by simp
  then show ?thesis using assms(1,4) n by (simp add: Let_def)
qed

lemma regex_exec_Some:
  "regex_exec p s = Some m \<Longrightarrow> \<exists>pre suf. s = pre @ suf \<and> match_here p suf = Some m"
proof (induction s)
  case Nil
  then show ?case by simp
next
  case (Cons x xs)
  show ?case
  proof (cases "match_here p (x # xs)")
    case None
    with Cons obtain pre suf where "xs = pre @ suf" "match_here p suf = Some m" by auto
    then have "x # xs = (x # pre) @ suf" by simp
    with \<open>match_here p suf = Some m\<close> show ?thesis by blast
  next
    case (Some a)
    with Cons.prems have "match_here p (x # xs) = Some m" by simp
    then show ?thesis by (metis append_Nil)
  qed
qed

lemma regex_exec_at_start:
  "match_here p s = Some m \<Longrightarrow> regex_exec p s = Some m"
  by (cases s) auto

text \<open>What a match of the date pattern of \<open>formatChineseDate\<close> looks like.\<close>

lemma date_rx_shape:
  assumes "match_here date_rx s = Some m"
  shows "\<exists>y mo d. m = [y, [ch_year], mo, [ch_month], d, [ch_day]]
           \<and> length y = 4 \<and> (\<forall>c \<in> set y. is_digit c)
           \<and> 1 \<le> length mo \<and> length mo \<le> 2 \<and> (\<forall>c \<in> set mo. is_digit c)
           \<and> 1 \<le> length d \<and> length d \<le> 2 \<and> (\<forall>c \<in> set d. is_digit c)"
proof -
  from assms obtain k1 m1 where k1: "4 \<le> k1" "k1 \<le> 4" "k1 \<le> length s"
      "\<forall>c \<in> set (take k1 s). is_digit c"
    and r1: "match_here [Chr ch_year, Digits 1 2, Chr ch_month, Digits 1 2, Chr ch_day]
               (drop k1 s) = Some m1"
    and m: "m = take k1 s # m1"
    unfolding date_rx_def by (blast dest: match_here_Digits_Some)
  from r1 obtain s2 m2 where
    r2: "match_here [Digits 1 2, Chr ch_month, Digits 1 2, Chr ch_day] s2 = Some m2"
    and m1: "m1 = [ch_year] # m2"
    by (blast dest: match_here_Chr_Some)
  from r2 obtain k3 m3 where k3: "1 \<le> k3" "k3 \<le> 2" "k3 \<le> length s2"
      "\<forall>c \<in> set (take k3 s2). is_digit c"
    and r3: "match_here [Chr ch_month, Digits 1 2, Chr ch_day] (drop k3 s2) = Some m3"
    and m2: "m2 = take k3 s2 # m3"
    by (blast dest: match_here_Digits_Some)
  from r3 obtain s4 m4 where
    r4: "match_here [Digits 1 2, Chr ch_day] s4 = Some m4"
    and m3: "m3 = [ch_month] # m4"
    by (blast dest: match_here_Chr_Some)
  from r4 obtain k5 m5 where k5: "1 \<le> k5" "k5 \<le> 2" "k5 \<le> length s4"
      "\<forall>c \<in> set (take k5 s4). is_digit c"
    and r5: "match_here [Chr ch_day] (drop k5 s4) = Some m5"
    and m4: "m4 = take k5 s4 # m5"
    by (blast dest: match_here_Digits_Some)
  from match_here_Chr_Some [OF r5] have m5: "m5 = [[ch_day]]"
    by auto
  have "m = [take k1 s, [ch_year], take k3 s2, [ch_month], take k5 s4, [ch_day]]"
    using m m1 m2 m3 m4 m5 by simp
  moreover have "length (take k1 s) = 4" using k1 by simp
  moreover have "1 \<le> length (take k3 s2) \<and> length (take k3 s2) \<le> 2" using k3 by simp
  moreover have "1 \<le> length (take k5 s4) \<and> length (take k5 s4) \<le> 2" using k5 by simp
  ultimately show ?thesis using k1(4) k3(4) k5(4) by blast
qed

lemma padStart_two_digits:
  assumes "1 \<le> length s" "length s \<le> 2" "\<forall>c \<in> set s. is_digit c"
  shows "length (padStart 2 [ch_zero] s) = 2 \<and> (\<forall>c \<in> set (padStart 2 [ch_zero] s). is_digit c)"
proof (cases "length s = 2")
  case True
  then show ?thesis using assms by (simp add: padStart_def)
next
  case False
  with assms have "length s = 1" by simp
  then have "padStart 2 [ch_zero] s = ch_zero # s" by (simp add: padStart_def)
  moreover have "is_digit ch_zero" by (simp add: is_digit_def ch_zero_def)
  ultimately show ?thesis using assms \<open>length s = 1\<close> by simp
qed

lemma padStart_long_enough: "n \<le> length s \<Longrightarrow> padStart n p s = s"
  by (simp add: padStart_def)

lemma date_rx_on_padded:
  assumes "length y = 4" "\<forall>c \<in> set y. is_digit c"
    and "length mo = 2" "\<forall>c \<in> set mo. is_digit c"
    and "length d = 2" "\<forall>c \<in> set d. is_digit c"
  shows "match_here date_rx (y @ [ch_year] @ mo @ [ch_month] @ d @ [ch_day])
           = Some [y, [ch_year], mo, [ch_month], d, [ch_day]]"
proof -
  have 5: "match_here [Chr ch_day] [ch_day] = Some [[ch_day]]" by simp
  have 4: "match_here [Digits 1 2, Chr ch_day] (d @ [ch_day]) = Some [d, [ch_day]]"
    using assms(5,6) 5 by (intro match_here_Digits_max) auto
  have 3: "match_here [Chr ch_month, Digits 1 2, Chr ch_day] ([ch_month] @ d @ [ch_day])
             = Some [[ch_month], d, [ch_day]]"
    using 4 by simp
  have 2: "match_here [Digits 1 2, Chr ch_month, Digits 1 2, Chr ch_day]
             (mo @ [ch_month] @ d @ [ch_day]) = Some [mo, [ch_month], d, [ch_day]]"
    using assms(3,4) 3 by (intro match_here_Digits_max) auto
  have 1: "match_here [Chr ch_year, Digits 1 2, Chr ch_month, Digits 1 2, Chr ch_day]
             ([ch_year] @ mo @ [ch_month] @ d @ [ch_day])
             = Some [[ch_year], mo, [ch_month], d, [ch_day]]"
    using 2 by simp
  show ?thesis
    unfolding date_rx_def using assms(1,2) 1 by (intro match_here_Digits_max) auto
qed

lemma formatChineseDate_unknown: "formatChineseDate unknown_str = unknown_str"
  by (simp add: formatChineseDate_def unknown_str_def date_rx_def ch_year_def is_digit_def)

section \<open>Normalisation is idempotent\<close>

text \<open>
  Claim C7. Applying \<open>formatChineseDate\<close> twice gives the same result as applying it once.
  This holds for every string, so in particular for every well-formed date string matching
  the year/month/day pattern: a string with a match is replaced by the zero-padded form of
  the match, which matches itself; a non-empty string without a match is returned as it is;
  the empty string becomes the literal for an unknown date, which has no match.
\<close>

theorem formatChineseDate_idempotent:
  "formatChineseDate (formatChineseDate d) = formatChineseDate d"
proof (cases "if d = [] then None else regex_exec date_rx d")
  case None
  show ?thesis
  proof (cases "d = []")
    case True
    have "formatChineseDate [] = unknown_str" by (simp add: formatChineseDate_def)
    with True show ?thesis by (simp add: formatChineseDate_unknown)
  next
    case False
    with None have "formatChineseDate d = d" by (simp add: formatChineseDate_def)
    then show ?thesis by simp
  qed
next
  case (Some m)
  then have ex: "regex_exec date_rx d = Some m" by (simp split: if_splits)
  then obtain pre suf where "match_here date_rx suf = Some m"
    by (blast dest: regex_exec_Some)
  then obtain y mo dd where m: "m = [y, [ch_year], mo, [ch_month], dd, [ch_day]]"
    and y: "length y = 4" "\<forall>c \<in> set y. is_digit c"
    and mo: "1 \<le> length mo" "length mo \<le> 2" "\<forall>c \<in> set mo. is_digit c"
    and dd: "1 \<le> length dd" "length dd \<le> 2" "\<forall>c \<in> set dd. is_digit c"
    by (blast dest: date_rx_shape)
  let ?mo = "padStart 2 [ch_zero] mo" and ?dd = "padStart 2 [ch_zero] dd"
  let ?out = "y @ [ch_year] @ ?mo @ [ch_month] @ ?dd @ [ch_day]"
  have out: "formatChineseDate d = ?out"
    using Some m by (simp add: formatChineseDate_def)
  have pmo: "length ?mo = 2" "\<forall>c \<in> set ?mo. is_digit c"
    using padStart_two_digits [OF mo] by auto
  have pdd: "length ?dd = 2" "\<forall>c \<in> set ?dd. is_digit c"
    using padStart_two_digits [OF dd] by auto
  have "match_here date_rx ?out = Some [y, [ch_year], ?mo, [ch_month], ?dd, [ch_day]]"
    using y pmo pdd by (rule date_rx_on_padded)
  then have ex2: "regex_exec date_rx ?out = Some [y, [ch_year], ?mo, [ch_month], ?dd, [ch_day]]"
    by (rule regex_exec_at_start)
  have ne: "?out \<noteq> []" by simp
  have "formatChineseDate ?out
          = y @ [ch_year] @ padStart 2 [ch_zero] ?mo @ [ch_month]
              @ padStart 2 [ch_zero] ?dd @ [ch_day]"
    unfolding formatChineseDate_def [of ?out] using ex2 ne by simp
  also have "\<dots> = ?out"
    using pmo(1) pdd(1) by (simp add: padStart_long_enough)
  finally show ?thesis using out by simp
qed

section \<open>Facts about dates\<close>

lemma div_succ:
  fixes x c :: int
  assumes "0 < c"
  shows "(x + 1) div c = x div c + (if (x + 1) mod c = 0 then 1 else 0)"
proof -
  define q where "q = x div c"
  define r where "r = x mod c"
  have x: "x = c * q + r" by (simp add: q_def r_def)
  have r: "0 \<le> r" "r < c" using assms by (simp_all add: r_def)
  show ?thesis
  proof (cases "r + 1 = c")
    case True
    then have "x + 1 = c * (q + 1)" using x by (simp add: algebra_simps)
    then have "(x + 1) div c = q + 1" "(x + 1) mod c = 0" using assms by simp_all
    then show ?thesis by (simp add: q_def)
  next
    case False
    then have r1: "0 \<le> r + 1" "r + 1 < c" using r by simp_all
    have x1: "x + 1 = c * q + (r + 1)" using x by simp
    have "(x + 1) div c = q" "(x + 1) mod c = r + 1"
      using int_div_pos_eq [OF x1 r1] int_mod_pos_eq [OF x1 r1] by simp_all
    then show ?thesis using r by (simp add: q_def)
  qed
qed

lemma mod_shift:
  fixes x k c :: int
  assumes "k mod c = 0"
  shows "((x - k) mod c = 0) = (x mod c = 0)"
proof -
  have "(x - k) mod c = (x - k mod c) mod c" by (simp add: mod_diff_right_eq)
  then show ?thesis using assms by simp
qed

lemma DayFromYear_Suc: "DayFromYear (y + 1) = DayFromYear y + DaysInYear y"
proof -
  have a: "(y + 1 - 1969) div 4 = (y - 1969) div 4 + (if y mod 4 = 0 then 1 else 0)"
    using div_succ [of 4 "y - 1969"] mod_shift [of 1968 4 y] by (simp add: algebra_simps)
  have b: "(y + 1 - 1901) div 100 = (y - 1901) div 100 + (if y mod 100 = 0 then 1 else 0)"
    using div_succ [of 100 "y - 1901"] mod_shift [of 1900 100 y] by (simp add: algebra_simps)
  have c: "(y + 1 - 1601) div 400 = (y - 1601) div 400 + (if y mod 400 = 0 then 1 else 0)"
    using div_succ [of 400 "y - 1601"] mod_shift [of 1600 400 y] by (simp add: algebra_simps)
  have m4: "y mod 100 = 0 \<Longrightarrow> y mod 4 = 0"
    using mod_mod_cancel [of 4 100 y] by simp
  have m100: "y mod 400 = 0 \<Longrightarrow> y mod 100 = 0"
    using mod_mod_cancel [of 100 400 y] by simp
  show ?thesis
    unfolding DayFromYear_def DaysInYear_def a b c using m4 m100 by auto
qed

lemma DaysInYear_bounds: "365 \<le> DaysInYear y \<and> DaysInYear y \<le> 366"
  by (simp add: DaysInYear_def)

lemma DayFromYear_add:
  "DayFromYear y + 365 * int n \<le> DayFromYear (y + int n)
     \<and> DayFromYear (y + int n) \<le> DayFromYear y + 366 * int n"
proof (induction n)
  case 0
  then show ?case by simp
next
  case (Suc n)
  have "y + int (Suc n) = y + int n + 1" by simp
  then have "DayFromYear (y + int (Suc n)) = DayFromYear (y + int n) + DaysInYear (y + int n)"
    by (simp only: DayFromYear_Suc)
  with Suc DaysInYear_bounds [of "y + int n"] show ?case by simp
qed

lemma DayFromYear_strict_mono:
  assumes "y < y'"
  shows "DayFromYear y < DayFromYear y'"
proof -
  from assms obtain n where n: "y' = y + int n" "0 < n"
    by (metis zless_iff_Suc_zadd zero_less_Suc)
  with DayFromYear_add [of y n] show ?thesis by simp
qed

lemma DayFromYear_mono: "y \<le> y' \<Longrightarrow> DayFromYear y \<le> DayFromYear y'"
  using DayFromYear_strict_mono [of y y'] by (cases "y = y'") auto

lemma DayFromYear_1970: "DayFromYear 1970 = 0"
  by (simp add: DayFromYear_def)

lemma year_upto_eq:
  "y0 \<le> y \<Longrightarrow> day < DayFromYear (y + 1) \<Longrightarrow> DayFromYear y \<le> day \<Longrightarrow> year_upto y0 day = y"
proof (induction y0 day rule: year_upto.induct)
  case (1 y0 day)
  show ?case
  proof (cases "DayFromYear (y0 + 1) \<le> day")
    case True
    have "y0 < y"
    proof (rule ccontr)
      assume "\<not> y0 < y"
      with "1.prems"(1) have "y0 = y" by simp
      with True "1.prems"(2) show False by simp
    qed
    then have "y0 + 1 \<le> y" by simp
    with "1.IH" [OF True] "1.prems" have "year_upto (y0 + 1) day = y" by simp
    moreover from True have "year_upto y0 day = year_upto (y0 + 1) day"
      by (subst year_upto.simps) simp
    ultimately show ?thesis by simp
  next
    case False
    have "y0 = y"
    proof (rule ccontr)
      assume "y0 \<noteq> y"
      with "1.prems"(1) have "y0 + 1 \<le> y" by simp
      then have "DayFromYear (y0 + 1) \<le> DayFromYear y" by (rule DayFromYear_mono)
      with "1.prems"(3) False show False by simp
    qed
    moreover from False have "year_upto y0 day = y0"
      by (subst year_upto.simps) simp
    ultimately show ?thesis by simp
  qed
qed

lemma year_estimate:
  "DayFromYear (1970 + (if 0 \<le> day then day div 366 else day div 365)) \<le> day"
proof (cases "0 \<le> day")
  case True
  define n where "n = nat (day div 366)"
  have n: "int n = day div 366" using True by (simp add: n_def pos_imp_zdiv_nonneg_iff)
  have "DayFromYear (1970 + int n) \<le> 366 * int n"
    using DayFromYear_add [of 1970 n] by (simp add: DayFromYear_1970)
  also have "\<dots> \<le> day" unfolding n
    using mult_div_mod_eq [of 366 day] pos_mod_sign [of 366 day] by linarith
  finally show ?thesis using True n by simp
next
  case False
  define n where "n = nat (- (day div 365))"
  have neg: "day div 365 < 0" using False by (simp add: div_neg_pos_less0)
  have n: "int n = - (day div 365)" using neg by (simp add: n_def)
  define y where "y = 1970 + day div 365"
  have "DayFromYear y + 365 * int n \<le> DayFromYear (y + int n)"
    using DayFromYear_add [of y n] by simp
  moreover have "y + int n = 1970" by (simp add: y_def n)
  ultimately have "DayFromYear y \<le> 365 * (day div 365)"
    by (simp add: DayFromYear_1970 n)
  also have "\<dots> \<le> day"
    using mult_div_mod_eq [of 365 day] pos_mod_sign [of 365 day] by linarith
  finally show ?thesis using False by (simp add: y_def)
qed

lemma YearFromTime_eq:
  assumes "DayFromYear y \<le> Day t" "Day t < DayFromYear (y + 1)"
  shows "YearFromTime t = y"
proof -
  let ?e = "1970 + (if 0 \<le> Day t then Day t div 366 else Day t div 365)"
  have "DayFromYear ?e \<le> Day t" by (rule year_estimate)
  with assms(2) have "DayFromYear ?e < DayFromYear (y + 1)" by simp
  then have "?e \<le> y"
    using DayFromYear_mono [of "y + 1" ?e] by (cases "?e \<le> y") auto
  then have "year_upto ?e (Day t) = y" using assms by (intro year_upto_eq) auto
  then show ?thesis by (simp add: YearFromTime_def Let_def)
qed

lemma DaysInYear_leap: "DaysInYear y = (if leap_year y then 366 else 365)"
proof (cases "y mod 4 = 0")
  case False
  then show ?thesis by (simp only: DaysInYear_def leap_year_def simp_thms if_True if_False)
next
  case m4: True
  show ?thesis
  proof (cases "y mod 100 = 0")
    case False
    with m4 show ?thesis
      by (simp only: DaysInYear_def leap_year_def simp_thms if_True if_False)
  next
    case m100: True
    show ?thesis
    proof (cases "y mod 400 = 0")
      case False
      with m4 m100 show ?thesis
        by (simp only: DaysInYear_def leap_year_def simp_thms if_True if_False)
    next
      case True
      with m4 m100 show ?thesis
        by (simp only: DaysInYear_def leap_year_def simp_thms if_True if_False)
    qed
  qed
qed

lemma upto_1_12: "[1..12] = [1, 2, 3, 4, 5, 6, 7, 8, 9, 10, 11, 12 :: int]"
  by code_simp

lemma month_cases:
  fixes m :: int
  assumes "1 \<le> m" "m \<le> 12"
  shows "m = 1 \<or> m = 2 \<or> m = 3 \<or> m = 4 \<or> m = 5 \<or> m = 6 \<or> m = 7 \<or> m = 8 \<or> m = 9
           \<or> m = 10 \<or> m = 11 \<or> m = 12"
proof -
  have "m \<in> set [1..12]" using assms by simp
  then show ?thesis unfolding upto_1_12 by simp
qed

lemma Day_of_midnight: "Day (D * msPerDay) = D"
  by (simp add: Day_def msPerDay_def)

lemma TimeWithinDay_of_midnight: "TimeWithinDay (D * msPerDay) = 0"
  by (simp add: TimeWithinDay_def)

lemma day_number_in_year:
  assumes "valid_date y m d"
  shows "DayFromYear y \<le> day_number y m d \<and> day_number y m d < DayFromYear (y + 1)"
proof -
  from assms have m: "1 \<le> m" "m \<le> 12" and d: "1 \<le> d" "d \<le> days_in_month y m"
    by (simp_all add: valid_date_def)
  show ?thesis
  proof (cases "leap_year y")
    case True
    from month_cases [OF m] d show ?thesis
      unfolding DayFromYear_Suc DaysInYear_leap day_number_def
      by (elim disjE) (simp_all add: month_start_def days_in_month_def True)
  next
    case False
    from month_cases [OF m] d show ?thesis
      unfolding DayFromYear_Suc DaysInYear_leap day_number_def
      by (elim disjE) (simp_all add: month_start_def days_in_month_def False)
  qed
qed

lemma civil_of_day_number:
  assumes "valid_date y m d" and "Day t = day_number y m d"
  shows "YearFromTime t = y \<and> MonthFromTime t = m - 1 \<and> DateFromTime t = d"
proof -
  from assms(1) have m: "1 \<le> m" "m \<le> 12" and d: "1 \<le> d" "d \<le> days_in_month y m"
    by (simp_all add: valid_date_def)
  have yr: "YearFromTime t = y"
    using day_number_in_year [OF assms(1)] assms(2) by (intro YearFromTime_eq) simp_all
  have L: "InLeapYear t = (if leap_year y then 1 else 0)"
    by (simp add: InLeapYear_def yr DaysInYear_leap)
  have dw: "DayWithinYear t = month_start (m - 1) (if leap_year y then 1 else 0) + d - 1"
    by (simp add: DayWithinYear_def yr assms(2) day_number_def)
  have mo: "MonthFromTime t = m - 1"
  proof (cases "leap_year y")
    case True
    from month_cases [OF m] d show ?thesis unfolding MonthFromTime_def L dw Let_def
      by (elim disjE) (simp_all add: month_start_def days_in_month_def True)
  next
    case False
    from month_cases [OF m] d show ?thesis unfolding MonthFromTime_def L dw Let_def
      by (elim disjE) (simp_all add: month_start_def days_in_month_def False)
  qed
  have "DateFromTime t = d"
    using month_cases [OF m] unfolding DateFromTime_def mo L dw Let_def
    by (elim disjE) (simp_all add: month_start_def)
  with yr mo show ?thesis by simp
qed

lemma MakeDay_day_number:
  assumes "1 \<le> m" "m \<le> 12"
  shows "MakeDay y (m - 1) d = day_number y m d"
proof -
  have "(m - 1) div 12 = 0" "(m - 1) mod 12 = m - 1" using assms by simp_all
  then show ?thesis by (simp add: MakeDay_def day_number_def DaysInYear_leap)
qed

lemma prev_day_valid:
  assumes "valid_date y m d" and "prev_day y m d = (y', m', d')"
  shows "valid_date y' m' d' \<and> day_number y' m' d' = day_number y m d - 1"
proof -
  from assms(1) have m: "1 \<le> m" "m \<le> 12" and d: "1 \<le> d" "d \<le> days_in_month y m"
    by (simp_all add: valid_date_def)
  show ?thesis
  proof (cases "1 < d")
    case True
    with assms(2) have "y' = y" "m' = m" "d' = d - 1" by (auto simp: prev_day_def)
    with True m d show ?thesis by (simp add: valid_date_def day_number_def)
  next
    case False
    with d have d1: "d = 1" by simp
    show ?thesis
    proof (cases "1 < m")
      case True
      with assms(2) d1 have eq: "y' = y" "m' = m - 1" "d' = days_in_month y (m - 1)"
        by (auto simp: prev_day_def)
      from True month_cases [OF m] have mc: "m = 2 \<or> m = 3 \<or> m = 4 \<or> m = 5 \<or> m = 6
           \<or> m = 7 \<or> m = 8 \<or> m = 9 \<or> m = 10 \<or> m = 11 \<or> m = 12" by simp
      show ?thesis
      proof (cases "leap_year y")
        case True
        from mc show ?thesis unfolding eq d1 valid_date_def day_number_def
          by (elim disjE) (simp_all add: month_start_def days_in_month_def True)
      next
        case False
        from mc show ?thesis unfolding eq d1 valid_date_def day_number_def
          by (elim disjE) (simp_all add: month_start_def days_in_month_def False)
      qed
    next
      case False
      with m have m1: "m = 1" by simp
      with assms(2) d1 have eq: "y' = y - 1" "m' = 12" "d' = 31" by (auto simp: prev_day_def)
      have "DayFromYear y = DayFromYear (y - 1) + DaysInYear (y - 1)"
        using DayFromYear_Suc [of "y - 1"] by simp
      then show ?thesis unfolding eq d1 m1 valid_date_def day_number_def DaysInYear_leap
        by (simp add: month_start_def days_in_month_def)
    qed
  qed
qed

lemma upt_0_10: "[0..<10] = [0, 1, 2, 3, 4, 5, 6, 7, 8, 9 :: nat]"
  by code_simp

lemma digit_chr_props:
  assumes "n < 10"
  shows "is_digit (digit_chr n) \<and> uint (digit_chr n) - 48 = int n"
proof -
  have "n \<in> set [0..<10]" using assms by simp
  then have "n \<in> set [0, 1, 2, 3, 4, 5, 6, 7, 8, 9]" unfolding upt_0_10 .
  then show ?thesis by (auto simp: is_digit_def digit_chr_def)
qed

lemma digits_of_step:
  "digits_of n = (if n < 10 then [digit_chr n] else digits_of (n div 10) @ [digit_chr (n mod 10)])"
  by (subst digits_of.simps) simp

lemma js_Number_snoc: "js_Number (xs @ [c]) = 10 * js_Number xs + (uint c - 48)"
  by (simp add: js_Number_def)

lemma js_Number_digits_of: "js_Number (digits_of n) = int n"
proof (induction n rule: digits_of.induct)
  case (1 n)
  show ?case
  proof (cases "n < 10")
    case True
    then have "digits_of n = [digit_chr n]" by (subst digits_of_step) simp
    with digit_chr_props [OF True] show ?thesis by (simp add: js_Number_def)
  next
    case False
    then have eq: "digits_of n = digits_of (n div 10) @ [digit_chr (n mod 10)]"
      by (subst digits_of_step) simp
    have "n mod 10 < 10" by simp
    from digit_chr_props [OF this] have "uint (digit_chr (n mod 10)) - 48 = int (n mod 10)"
      by simp
    with "1.IH" [OF False] have "js_Number (digits_of n) = 10 * int (n div 10) + int (n mod 10)"
      by (simp only: eq js_Number_snoc)
    also have "\<dots> = int (10 * (n div 10) + n mod 10)" by (simp only: of_nat_add of_nat_mult of_nat_numeral)
    also have "\<dots> = int n" by (simp only: mult_div_mod_eq)
    finally show ?thesis .
  qed
qed

lemma digits_of_all_digits: "\<forall>c \<in> set (digits_of n). is_digit c"
proof (induction n rule: digits_of.induct)
  case (1 n)
  show ?case
  proof (cases "n < 10")
    case True
    then have "digits_of n = [digit_chr n]" by (subst digits_of_step) simp
    with digit_chr_props [OF True] show ?thesis by simp
  next
    case False
    then have eq: "digits_of n = digits_of (n div 10) @ [digit_chr (n mod 10)]"
      by (subst digits_of_step) simp
    have "n mod 10 < 10" by simp
    from digit_chr_props [OF this] "1.IH" [OF False] show ?thesis by (simp add: eq)
  qed
qed

lemma length_digits_of_1: "n < 10 \<Longrightarrow> length (digits_of n) = 1"
  by (subst digits_of_step) simp

lemma length_digits_of_2: "10 \<le> n \<Longrightarrow> n < 100 \<Longrightarrow> length (digits_of n) = 2"
  by (subst digits_of_step) (simp add: length_digits_of_1)

lemma length_digits_of_3: "100 \<le> n \<Longrightarrow> n < 1000 \<Longrightarrow> length (digits_of n) = 3"
  by (subst digits_of_step) (simp add: length_digits_of_2)

lemma length_digits_of_4: "1000 \<le> n \<Longrightarrow> n < 10000 \<Longrightarrow> length (digits_of n) = 4"
  by (subst digits_of_step) (simp add: length_digits_of_3)

lemma js_Number_leading_zero: "js_Number (ch_zero # s) = js_Number s"
  by (simp add: js_Number_def ch_zero_def)

lemma pad2_props:
  assumes "0 \<le> k" "k < 100"
  shows "length (padStart 2 [ch_zero] (js_String k)) = 2
           \<and> (\<forall>c \<in> set (padStart 2 [ch_zero] (js_String k)). is_digit c)
           \<and> js_Number (padStart 2 [ch_zero] (js_String k)) = k"
proof -
  have s: "js_String k = digits_of (nat k)" using assms by (simp add: js_String_def)
  have num: "js_Number (digits_of (nat k)) = k" using assms by (simp add: js_Number_digits_of)
  have z: "is_digit ch_zero" by (simp add: is_digit_def ch_zero_def)
  show ?thesis
  proof (cases "nat k < 10")
    case True
    then have len: "length (digits_of (nat k)) = 1" by (rule length_digits_of_1)
    then have "padStart 2 [ch_zero] (js_String k) = ch_zero # digits_of (nat k)"
      by (simp add: padStart_def s)
    with len num z digits_of_all_digits [of "nat k"] show ?thesis
      by (simp add: js_Number_leading_zero)
  next
    case False
    with assms have "length (digits_of (nat k)) = 2" by (intro length_digits_of_2) simp_all
    then have "padStart 2 [ch_zero] (js_String k) = digits_of (nat k)"
      by (simp add: padStart_def s)
    with \<open>length (digits_of (nat k)) = 2\<close> num digits_of_all_digits [of "nat k"]
    show ?thesis by simp
  qed
qed

lemma year4_props:
  assumes "1000 \<le> y" "y \<le> 9999"
  shows "length (js_String y) = 4 \<and> (\<forall>c \<in> set (js_String y). is_digit c)
           \<and> js_Number (js_String y) = y \<and> padStart 4 [ch_zero] (js_String y) = js_String y"
proof -
  have s: "js_String y = digits_of (nat y)" using assms by (simp add: js_String_def)
  have "length (digits_of (nat y)) = 4" using assms by (intro length_digits_of_4) simp_all
  moreover have "js_Number (digits_of (nat y)) = y" using assms by (simp add: js_Number_digits_of)
  ultimately show ?thesis using digits_of_all_digits [of "nat y"]
    by (simp add: s padStart_def)
qed

lemma strict_date_rx_on_padded:
  assumes "length y = 4" "\<forall>c \<in> set y. is_digit c"
    and "length mo = 2" "\<forall>c \<in> set mo. is_digit c"
    and "length d = 2" "\<forall>c \<in> set d. is_digit c"
  shows "match_here strict_date_rx (y @ [ch_year] @ mo @ [ch_month] @ d @ [ch_day])
           = Some [y, [ch_year], mo, [ch_month], d, [ch_day]]"
proof -
  have 5: "match_here [Chr ch_day] [ch_day] = Some [[ch_day]]" by simp
  have 4: "match_here [Digits 2 2, Chr ch_day] (d @ [ch_day]) = Some [d, [ch_day]]"
    using assms(5,6) 5 by (intro match_here_Digits_max) auto
  have 3: "match_here [Chr ch_month, Digits 2 2, Chr ch_day] ([ch_month] @ d @ [ch_day])
             = Some [[ch_month], d, [ch_day]]"
    using 4 by simp
  have 2: "match_here [Digits 2 2, Chr ch_month, Digits 2 2, Chr ch_day]
             (mo @ [ch_month] @ d @ [ch_day]) = Some [mo, [ch_month], d, [ch_day]]"
    using assms(3,4) 3 by (intro match_here_Digits_max) auto
  have 1: "match_here [Chr ch_year, Digits 2 2, Chr ch_month, Digits 2 2, Chr ch_day]
             ([ch_year] @ mo @ [ch_month] @ d @ [ch_day])
             = Some [[ch_year], mo, [ch_month], d, [ch_day]]"
    using 2 by simp
  show ?thesis
    unfolding strict_date_rx_def using assms(1,2) 1 by (intro match_here_Digits_max) auto
qed

lemma strict_date_rx_shape:
  assumes "match_here strict_date_rx s = Some m"
  shows "padded_date_prefix s"
proof -
  from assms obtain k1 m1 where k1: "4 \<le> k1" "k1 \<le> 4" "k1 \<le> length s"
      "\<forall>c \<in> set (take k1 s). is_digit c"
    and r1: "match_here [Chr ch_year, Digits 2 2, Chr ch_month, Digits 2 2, Chr ch_day]
               (drop k1 s) = Some m1"
    unfolding strict_date_rx_def by (blast dest: match_here_Digits_Some)
  from k1 have k1_eq: "k1 = 4" by simp
  from match_here_Chr_Some [OF r1] obtain s2 m2 where s2: "drop k1 s = ch_year # s2"
    and r2: "match_here [Digits 2 2, Chr ch_month, Digits 2 2, Chr ch_day] s2 = Some m2"
    by blast
  from match_here_Digits_Some [OF r2] obtain k3 m3 where k3: "2 \<le> k3" "k3 \<le> 2" "k3 \<le> length s2"
      "\<forall>c \<in> set (take k3 s2). is_digit c"
    and r3: "match_here [Chr ch_month, Digits 2 2, Chr ch_day] (drop k3 s2) = Some m3"
    by blast
  from k3 have k3_eq: "k3 = 2" by simp
  from match_here_Chr_Some [OF r3] obtain s4 m4 where s4: "drop k3 s2 = ch_month # s4"
    and r4: "match_here [Digits 2 2, Chr ch_day] s4 = Some m4"
    by blast
  from match_here_Digits_Some [OF r4] obtain k5 m5 where k5: "2 \<le> k5" "k5 \<le> 2" "k5 \<le> length s4"
      "\<forall>c \<in> set (take k5 s4). is_digit c"
    and r5: "match_here [Chr ch_day] (drop k5 s4) = Some m5"
    by blast
  from k5 have k5_eq: "k5 = 2" by simp
  from match_here_Chr_Some [OF r5] obtain s6 where s6: "drop k5 s4 = ch_day # s6"
    by blast
  define A where "A = take 4 s"
  define B where "B = take 2 s2"
  define C where "C = take 2 s4"
  have lens: "length A = 4" "length B = 2" "length C = 2"
    using k1 k3 k5 by (simp_all add: A_def B_def C_def)
  have digs: "list_all is_digit A" "list_all is_digit B" "list_all is_digit C"
    using k1(4) k3(4) k5(4) by (simp_all add: A_def B_def C_def k1_eq k3_eq k5_eq list_all_iff)
  have "s4 = C @ drop 2 s4" "s2 = B @ drop 2 s2" "s = A @ drop 4 s"
    unfolding A_def B_def C_def by (simp_all only: append_take_drop_id)
  with s2 s4 s6 have "s4 = C @ ch_day # s6" "s2 = B @ ch_month # s4" "s = A @ ch_year # s2"
    by (simp_all add: k1_eq k3_eq k5_eq)
  then have s: "s = A @ ch_year # B @ ch_month # C @ ch_day # s6" by simp
  show ?thesis
    unfolding padded_date_prefix_def s using lens digs by (simp add: nth_append)
qed

lemma contains_padded_date_append:
  "padded_date_prefix suf \<Longrightarrow> contains_padded_date (pre @ suf)"
proof (induction pre)
  case Nil
  then have "suf \<noteq> []" by (auto simp: padded_date_prefix_def)
  with Nil show ?case by (cases suf) simp_all
next
  case (Cons x pre)
  then show ?case by simp
qed

lemma no_padded_date_no_match:
  assumes "\<not> contains_padded_date s"
  shows "regex_exec strict_date_rx s = None"
proof (cases "regex_exec strict_date_rx s")
  case None
  then show ?thesis .
next
  case (Some m)
  from regex_exec_Some [OF Some] obtain pre suf where "s = pre @ suf"
    and "match_here strict_date_rx suf = Some m" by blast
  with strict_date_rx_shape contains_padded_date_append assms show ?thesis by blast
qed

lemma previous_day_of_date_string:
  assumes v: "valid_date y m d" and y: "1000 \<le> y" "y \<le> 9999"
    and ne: "(y, m, d) \<noteq> (1000, 1, 1)"
    and p: "prev_day y m d = (y', m', d')"
    and e0: "local_midnight_exists z (day_number y m d)"
    and e1: "local_midnight_exists z (day_number y m d - 1)"
  shows "getNextRenewAvailableDate z (chinese_date y m d) = chinese_date y' m' d'"
proof -
  from v have m: "1 \<le> m" "m \<le> 12" and d: "1 \<le> d" "d \<le> days_in_month y m"
    by (simp_all add: valid_date_def)
  from d have d31: "d \<le> 31" by (simp add: days_in_month_def split: if_splits)
  let ?Y = "js_String y" and ?M = "padStart 2 [ch_zero] (js_String m)"
    and ?D = "padStart 2 [ch_zero] (js_String d)"
  have Y: "length ?Y = 4" "\<forall>c \<in> set ?Y. is_digit c" "js_Number ?Y = y"
      "padStart 4 [ch_zero] ?Y = ?Y"
    using year4_props [OF y] by simp_all
  have M: "length ?M = 2" "\<forall>c \<in> set ?M. is_digit c" "js_Number ?M = m"
    using pad2_props [of m] m by simp_all
  have D: "length ?D = 2" "\<forall>c \<in> set ?D. is_digit c" "js_Number ?D = d"
    using pad2_props [of d] d d31 by simp_all
  have inp: "chinese_date y m d = ?Y @ [ch_year] @ ?M @ [ch_month] @ ?D @ [ch_day]"
    by (simp add: chinese_date_def Y(4))
  have "match_here strict_date_rx (chinese_date y m d)
          = Some [?Y, [ch_year], ?M, [ch_month], ?D, [ch_day]]"
    unfolding inp using Y(1,2) M(1,2) D(1,2) by (rule strict_date_rx_on_padded)
  then have ex: "regex_exec strict_date_rx (chinese_date y m d)
          = Some [?Y, [ch_year], ?M, [ch_month], ?D, [ch_day]]"
    by (rule regex_exec_at_start)
  define N where "N = day_number y m d"
  define u0 where "u0 = UTC z (N * msPerDay)"
  define u1 where "u1 = UTC z ((N - 1) * msPerDay)"
  have dt0: "new_Date z y (m - 1) d = u0"
    using y m by (simp add: new_Date_def MakeDate_def MakeDay_day_number N_def u0_def)
  have loc0: "LocalTime z u0 = N * msPerDay"
    using e0 by (simp add: local_midnight_exists_def N_def u0_def)
  have civ0: "YearFromTime (N * msPerDay) = y" "MonthFromTime (N * msPerDay) = m - 1"
      "DateFromTime (N * msPerDay) = d"
    using civil_of_day_number [OF v, of "N * msPerDay"] by (simp_all add: Day_of_midnight N_def)
  from prev_day_valid [OF v p] have v': "valid_date y' m' d'"
    and N': "day_number y' m' d' = N - 1" by (simp_all add: N_def)
  have "MakeDay y (m - 1) (d - 1) = N - 1"
    using m by (simp add: MakeDay_day_number N_def day_number_def)
  then have dt: "setDate z u0 (d - 1) = u1"
    by (simp add: setDate_def loc0 civ0 TimeWithinDay_of_midnight MakeDate_def u1_def Let_def)
  have loc: "LocalTime z u1 = (N - 1) * msPerDay"
    using e1 by (simp add: local_midnight_exists_def N_def u1_def)
  have civ: "YearFromTime ((N - 1) * msPerDay) = y'" "MonthFromTime ((N - 1) * msPerDay) = m' - 1"
      "DateFromTime ((N - 1) * msPerDay) = d'"
    using civil_of_day_number [OF v', of "(N - 1) * msPerDay"] N'
    by (simp_all add: Day_of_midnight)
  have res: "getNextRenewAvailableDate z (chinese_date y m d)
          = js_String y' @ [ch_year] @ padStart 2 [ch_zero] (js_String m') @ [ch_month]
              @ padStart 2 [ch_zero] (js_String d') @ [ch_day]"
    unfolding getNextRenewAvailableDate_def ex
    by (simp add: Y(3) M(3) D(3) dt0 getDate_def getMonth_def getFullYear_def loc0 civ0 dt
          loc civ Let_def)
  have y': "1000 \<le> y'" "y' \<le> 9999"
    using p y ne m d by (auto simp: prev_day_def split: if_splits)
  have "padStart 4 [ch_zero] (js_String y') = js_String y'"
    using year4_props [OF y'] by simp
  then have "chinese_date y' m' d'
          = js_String y' @ [ch_year] @ padStart 2 [ch_zero] (js_String m') @ [ch_month]
              @ padStart 2 [ch_zero] (js_String d') @ [ch_day]"
    by (simp add: chinese_date_def)
  with res show ?thesis by simp
qed

lemma local_midnight_exists_fixed: "local_midnight_exists (fixed_zone tza) n"
  by (simp add: local_midnight_exists_def LocalTime_def UTC_def fixed_zone_def)

section \<open>The day before the expiration date\<close>

lemma chinese_date_0050_03_01:
  "chinese_date 50 3 1
     = [0x30, 0x30, 0x35, 0x30, 0x5E74, 0x30, 0x33, 0x6708, 0x30, 0x31, 0x65E5]"
  by code_simp

lemma chinese_date_0050_02_28:
  "chinese_date 50 2 28
     = [0x30, 0x30, 0x35, 0x30, 0x5E74, 0x30, 0x32, 0x6708, 0x32, 0x38, 0x65E5]"
  by code_simp

lemma next_renew_0050_03_01:
  "getNextRenewAvailableDate (fixed_zone 0)
       [0x30, 0x30, 0x35, 0x30, 0x5E74, 0x30, 0x33, 0x6708, 0x30, 0x31, 0x65E5]
     = [0x31, 0x39, 0x35, 0x30, 0x5E74, 0x30, 0x32, 0x6708, 0x32, 0x38, 0x65E5]"
  by code_simp

text \<open>
  Claim C10 fails as it is stated, for years before 1000. For the zero-padded date string of
  1 March of the year 50 the script answers the string of 28 February 1950, because
  \<open>new Date\<close> reads a year from 0 to 99 as a year of the twentieth century; the string of
  the day before would be that of 28 February of the year 50.
\<close>

theorem getNextRenewAvailableDate_year_50_counterexample:
  "chinese_date 50 3 1
       = [0x30, 0x30, 0x35, 0x30, 0x5E74, 0x30, 0x33, 0x6708, 0x30, 0x31, 0x65E5]
     \<and> getNextRenewAvailableDate (fixed_zone 0) (chinese_date 50 3 1)
       = [0x31, 0x39, 0x35, 0x30, 0x5E74, 0x30, 0x32, 0x6708, 0x32, 0x38, 0x65E5]
     \<and> getNextRenewAvailableDate (fixed_zone 0) (chinese_date 50 3 1) \<noteq> chinese_date 50 2 28"
  by (simp add: chinese_date_0050_03_01 chinese_date_0050_02_28 next_renew_0050_03_01)

lemma chinese_date_2011_12_31:
  "chinese_date 2011 12 31
     = [0x32, 0x30, 0x31, 0x31, 0x5E74, 0x31, 0x32, 0x6708, 0x33, 0x31, 0x65E5]"
  by code_simp

text \<open>
  In a zone that skips a day the day after is mapped to itself: the local midnight of 30
  December 2011 does not exist in \<open>skipped_day_zone\<close>, and the script answers the string
  of 31 December 2011 for the string of 31 December 2011.
\<close>

lemma getNextRenewAvailableDate_skipped_day:
  "\<not> local_midnight_exists skipped_day_zone (day_number 2011 12 31 - 1)
     \<and> getNextRenewAvailableDate skipped_day_zone (chinese_date 2011 12 31)
         = chinese_date 2011 12 31"
  by code_simp

text \<open>
  Claim C10, amended. For every date of the calendar with a year from 1000 to 9999, other
  than 1 January 1000, \<open>getNextRenewAvailableDate\<close> maps the zero-padded date string to
  the zero-padded date string of the day before, across the ends of months and years,
  whenever the local midnights of the date and of the day before exist in the time zone of
  the runtime; they do in every time zone with a fixed offset. For every string that does
  not contain a zero-padded date it returns the literal for an unknown date, in every time
  zone.
\<close>

theorem getNextRenewAvailableDate_previous_day:
  "(valid_date y m d \<and> 1000 \<le> y \<and> y \<le> 9999 \<and> (y, m, d) \<noteq> (1000, 1, 1)
      \<and> local_midnight_exists z (day_number y m d)
      \<and> local_midnight_exists z (day_number y m d - 1) \<longrightarrow>
      getNextRenewAvailableDate z (chinese_date y m d)
        = (case prev_day y m d of (y', m', d') \<Rightarrow> chinese_date y' m' d'))
   \<and> (valid_date y m d \<and> 1000 \<le> y \<and> y \<le> 9999 \<and> (y, m, d) \<noteq> (1000, 1, 1) \<longrightarrow>
      getNextRenewAvailableDate (fixed_zone tza) (chinese_date y m d)
        = (case prev_day y m d of (y', m', d') \<Rightarrow> chinese_date y' m' d'))
   \<and> (\<not> contains_padded_date s \<longrightarrow> getNextRenewAvailableDate z s = unknown_str)"
proof (intro conjI impI)
  assume a: "valid_date y m d \<and> 1000 \<le> y \<and> y \<le> 9999 \<and> (y, m, d) \<noteq> (1000, 1, 1)
      \<and> local_midnight_exists z (day_number y m d)
      \<and> local_midnight_exists z (day_number y m d - 1)"
  obtain y' m' d' where p: "prev_day y m d = (y', m', d')" by (cases "prev_day y m d")
  from a have "getNextRenewAvailableDate z (chinese_date y m d) = chinese_date y' m' d'"
    by (intro previous_day_of_date_string [OF _ _ _ _ p]) simp_all
  with p show "getNextRenewAvailableDate z (chinese_date y m d)
        = (case prev_day y m d of (y', m', d') \<Rightarrow> chinese_date y' m' d')"
    by simp
next
  assume a: "valid_date y m d \<and> 1000 \<le> y \<and> y \<le> 9999 \<and> (y, m, d) \<noteq> (1000, 1, 1)"
  obtain y' m' d' where p: "prev_day y m d = (y', m', d')" by (cases "prev_day y m d")
  from a have "getNextRenewAvailableDate (fixed_zone tza) (chinese_date y m d)
      = chinese_date y' m' d'"
    by (intro previous_day_of_date_string [OF _ _ _ _ p] local_midnight_exists_fixed) simp_all
  with p show "getNextRenewAvailableDate (fixed_zone tza) (chinese_date y m d)
        = (case prev_day y m d of (y', m', d') \<Rightarrow> chinese_date y' m' d')"
    by simp
next
  assume "\<not> contains_padded_date s"
  then have "regex_exec strict_date_rx s = None" by (rule no_padded_date_no_match)
  then show "getNextRenewAvailableDate z s = unknown_str"
    by (simp add: getNextRenewAvailableDate_def)
qed

lemma chinese_date_examples:
  "chinese_date 2025 3 1
     = [0x32, 0x30, 0x32, 0x35, 0x5E74, 0x30, 0x33, 0x6708, 0x30, 0x31, 0x65E5]"
  "chinese_date 2025 2 28
     = [0x32, 0x30, 0x32, 0x35, 0x5E74, 0x30, 0x32, 0x6708, 0x32, 0x38, 0x65E5]"
  "chinese_date 2025 1 1
     = [0x32, 0x30, 0x32, 0x35, 0x5E74, 0x30, 0x31, 0x6708, 0x30, 0x31, 0x65E5]"
  "chinese_date 2024 12 31
     = [0x32, 0x30, 0x32, 0x34, 0x5E74, 0x31, 0x32, 0x6708, 0x33, 0x31, 0x65E5]"
  by code_simp+

lemma unpadded_has_no_padded_date:
  "\<not> contains_padded_date [0x32, 0x30, 0x32, 0x35, 0x5E74, 0x37, 0x6708, 0x37, 0x65E5]"
  by (simp add: padded_date_prefix_def)

lemma skipped_day_zone_midnights:
  "local_midnight_exists skipped_day_zone (day_number 2025 3 1)"
  "local_midnight_exists skipped_day_zone (day_number 2025 3 1 - 1)"
  by code_simp+

text \<open>
  The examples of the claim, in the zone of UTC: 1 March 2025 gives 28 February 2025, 1
  January 2025 gives 31 December 2024, and the unpadded string of 7 July 2025 gives the
  literal for an unknown date. In the zone that skipped a day in 2011, the local midnights
  of 1 March and 28 February 2025 exist, and 1 March 2025 gives 28 February 2025.
\<close>

theorem getNextRenewAvailableDate_previous_day_witness:
  "valid_date 2025 3 1 \<and> valid_date 2025 1 1
     \<and> getNextRenewAvailableDate (fixed_zone 0)
          [0x32, 0x30, 0x32, 0x35, 0x5E74, 0x30, 0x33, 0x6708, 0x30, 0x31, 0x65E5]
        = [0x32, 0x30, 0x32, 0x35, 0x5E74, 0x30, 0x32, 0x6708, 0x32, 0x38, 0x65E5]
     \<and> getNextRenewAvailableDate (fixed_zone 0)
          [0x32, 0x30, 0x32, 0x35, 0x5E74, 0x30, 0x31, 0x6708, 0x30, 0x31, 0x65E5]
        = [0x32, 0x30, 0x32, 0x34, 0x5E74, 0x31, 0x32, 0x6708, 0x33, 0x31, 0x65E5]
     \<and> local_midnight_exists skipped_day_zone (day_number 2025 3 1)
     \<and> local_midnight_exists skipped_day_zone (day_number 2025 3 1 - 1)
     \<and> getNextRenewAvailableDate skipped_day_zone
          [0x32, 0x30, 0x32, 0x35, 0x5E74, 0x30, 0x33, 0x6708, 0x30, 0x31, 0x65E5]
        = [0x32, 0x30, 0x32, 0x35, 0x5E74, 0x30, 0x32, 0x6708, 0x32, 0x38, 0x65E5]
     \<and> \<not> contains_padded_date [0x32, 0x30, 0x32, 0x35, 0x5E74, 0x37, 0x6708, 0x37, 0x65E5]
     \<and> getNextRenewAvailableDate (fixed_zone 0)
          [0x32, 0x30, 0x32, 0x35, 0x5E74, 0x37, 0x6708, 0x37, 0x65E5]
        = unknown_str"
proof -
  have v: "valid_date 2025 3 1" "valid_date 2025 1 1"
    by (simp_all add: valid_date_def days_in_month_def)
  have p: "prev_day 2025 3 1 = (2025, 2, 28)" "prev_day 2025 1 1 = (2024, 12, 31)"
    by (simp_all add: prev_day_def days_in_month_def leap_year_def)
  note n = unpadded_has_no_padded_date
  note e = skipped_day_zone_midnights
  from getNextRenewAvailableDate_previous_day [of 2025 3 1 skipped_day_zone 0
      "[0x32, 0x30, 0x32, 0x35, 0x5E74, 0x37, 0x6708, 0x37, 0x65E5]"]
    getNextRenewAvailableDate_previous_day [of 2025 1 1 "fixed_zone 0" 0
      "[0x32, 0x30, 0x32, 0x35, 0x5E74, 0x37, 0x6708, 0x37, 0x65E5]"]
  show ?thesis using v p n e by (simp add: chinese_date_examples)
qed

section \<open>Facts about runs\<close>

lemma quiet_refl: "quiet P s s"
  by (simp add: quiet_def)

lemma quiet_trans: "quiet P s s' \<Longrightarrow> quiet P s' s'' \<Longrightarrow> quiet P s s''"
  by (auto simp: quiet_def)

lemma keeps_ok: "keeps P (ok x)"
  by (simp add: keeps_def ok_def quiet_refl)

lemma keeps_throw: "keeps P (throw e)"
  by (simp add: keeps_def throw_def quiet_refl)

lemma keeps_emit: "P ev \<Longrightarrow> keeps P (emit ev)"
  by (simp add: keeps_def emit_def quiet_def)

lemma keeps_perform: "P ev \<Longrightarrow> keeps P (perform env ev)"
  by (auto simp: keeps_def perform_def quiet_def split: option.splits)

lemma keeps_andThen:
  assumes "keeps P m" "\<And>x. keeps P (f x)"
  shows "keeps P (andThen m f)"
  unfolding keeps_def
proof
  fix s
  obtain r s' where m: "m s = (r, s')" by (cases "m s")
  from assms(1) m have q1: "quiet P s s'" by (auto simp: keeps_def dest: spec [of _ s])
  show "quiet P s (snd (andThen m f s))"
  proof (cases r)
    case (Inl e)
    with m q1 show ?thesis by (simp add: andThen_def)
  next
    case (Inr x)
    from assms(2) [of x] have "quiet P s' (snd (f x s'))" by (simp add: keeps_def)
    with q1 have "quiet P s (snd (f x s'))" by (rule quiet_trans)
    with m Inr show ?thesis by (simp add: andThen_def)
  qed
qed

lemma keeps_steps: "(\<And>m. m \<in> set ms \<Longrightarrow> keeps P m) \<Longrightarrow> keeps P (steps ms)"
  by (induction ms) (auto intro: keeps_ok keeps_andThen)

lemma keeps_writeFileSync: "P (WriteFile f c) \<Longrightarrow> f \<noteq> ExpireTxt \<Longrightarrow> keeps P (writeFileSync env f c)"
  by (auto simp: keeps_def writeFileSync_def andThen_def perform_def quiet_def split: option.splits)

lemma keeps_readLastExpireDate: "keeps pre_event (readLastExpireDate env)"
  unfolding keeps_def readLastExpireDate_def
  by (auto simp: andThen_def ok_def perform_def quiet_def split: option.splits)

lemma keeps_loginAndOpenContract: "keeps pre_event (loginAndOpenContract env)"
  unfolding loginAndOpenContract_def
  by (rule keeps_steps) (auto intro: keeps_perform keeps_emit)

lemma keeps_initiateRenewal: "keeps pre_event (initiateRenewal env)"
  unfolding initiateRenewal_def
  by (rule keeps_steps) (auto intro: keeps_perform keeps_emit)

lemma keeps_captchaAttempt: "keeps loop_event (captchaAttempt env a)"
  unfolding captchaAttempt_def
  by (auto intro!: keeps_andThen keeps_perform keeps_emit keeps_ok keeps_writeFileSync
      split: option.splits)

lemma loop_trace_Nil: "loop_trace n []"
  by (simp add: loop_trace_def)

lemma loop_trace_append:
  "loop_trace i a \<Longrightarrow> loop_trace j b \<Longrightarrow> loop_trace (i + j) (a @ b)"
  by (auto simp: loop_trace_def)

lemma loop_trace_mono: "loop_trace i a \<Longrightarrow> i \<le> j \<Longrightarrow> loop_trace j a"
  by (auto simp: loop_trace_def)

lemma captchaAttempt_run:
  "\<exists>evs. trace (snd (captchaAttempt env a s)) = trace s @ QueryCaptchaImg # evs
         \<and> loop_trace 1 (QueryCaptchaImg # evs)
         \<and> unchanged s (snd (captchaAttempt env a s))"
  unfolding captchaAttempt_def loop_trace_def unchanged_def
  by (auto simp: andThen_def ok_def emit_def perform_def writeFileSync_def split: option.splits)

lemma captchaLoop_run:
  "\<exists>evs. trace (snd (captchaLoop env a s)) = trace s @ evs
         \<and> loop_trace (Suc maxCaptchaTries - a) evs
         \<and> (a \<le> maxCaptchaTries \<longrightarrow> QueryCaptchaImg \<in> set evs)
         \<and> unchanged s (snd (captchaLoop env a s))"
proof (induction env a s rule: captchaLoop.induct)
  case (1 env a s)
  show ?case
  proof (cases "a \<le> maxCaptchaTries")
    case False
    then have "captchaLoop env a s = (Inr False, s)" by (subst captchaLoop.simps) simp
    with False show ?thesis by (simp add: loop_trace_Nil unchanged_def)
  next
    case True
    obtain r s' where at: "captchaAttempt env a s = (r, s')" by (cases "captchaAttempt env a s")
    from captchaAttempt_run [of env a s] at obtain evs where
      evs: "trace s' = trace s @ QueryCaptchaImg # evs" "loop_trace 1 (QueryCaptchaImg # evs)"
        "unchanged s s'"
      by auto
    have one: "loop_trace (Suc maxCaptchaTries - a) (QueryCaptchaImg # evs)"
      using evs(2) True by (auto elim: loop_trace_mono)
    show ?thesis
    proof (cases "r = Inr Continue")
      case False
      then have "snd (captchaLoop env a s) = s'"
        using True at by (subst captchaLoop.simps)
          (auto split: sum.splits loop_step.splits)
      with evs one show ?thesis by auto
    next
      case Continue: True
      from "1.IH" [OF True at [symmetric] Continue refl]
      obtain evs' where evs': "trace (snd (captchaLoop env (a + 1) s')) = trace s' @ evs'"
          "loop_trace (Suc maxCaptchaTries - (a + 1)) evs'"
          "unchanged s' (snd (captchaLoop env (a + 1) s'))"
        by auto
      have eq: "captchaLoop env a s = captchaLoop env (a + 1) s'"
        using True at Continue by (subst captchaLoop.simps) simp
      have "loop_trace (1 + (Suc maxCaptchaTries - (a + 1))) ((QueryCaptchaImg # evs) @ evs')"
        using evs(2) evs'(2) by (rule loop_trace_append)
      then have "loop_trace (Suc maxCaptchaTries - a) (QueryCaptchaImg # evs @ evs')"
        using True by (auto elim: loop_trace_mono)
      moreover have "trace (snd (captchaLoop env a s)) = trace s @ QueryCaptchaImg # evs @ evs'"
        using eq evs(1) evs'(1) by simp
      moreover have "unchanged s (snd (captchaLoop env a s))"
        using eq evs(3) evs'(3) by (simp add: unchanged_def)
      ultimately show ?thesis by auto
    qed
  qed
qed

lemma solveCaptcha_run:
  "\<exists>evs. trace (snd (solveCaptcha env s)) = trace s @ evs
         \<and> loop_trace maxCaptchaTries evs \<and> QueryCaptchaImg \<in> set evs
         \<and> unchanged s (snd (solveCaptcha env s))"
proof -
  obtain r s' where l: "captchaLoop env 1 s = (r, s')" by (cases "captchaLoop env 1 s")
  have "snd (solveCaptcha env s) = s'"
    using l by (auto simp: solveCaptcha_def andThen_def throw_def ok_def split: sum.splits)
  with captchaLoop_run [of env 1 s] l show ?thesis by (auto simp: maxCaptchaTries_def)
qed

lemma afterCaptcha_run:
  assumes "afterCaptcha env persisted cur s = (r, s')"
  shows "\<exists>evs. trace s' = trace s @ GetBodyText # evs \<and> list_all post_event evs
           \<and> scriptErrorMessage s' = scriptErrorMessage s
           \<and> (\<forall>c. WriteFile ExpireTxt c \<in> set evs \<longrightarrow>
                 classifyOutcome persisted c = Success
                   \<and> (\<exists>n t. infoMessage s' = Some (SuccessMsg c n t)))
           \<and> (files s' ExpireTxt = files s ExpireTxt
                 \<or> r = Inr ()
                     \<and> (\<exists>c n t. files s' ExpireTxt = Some c \<and> classifyOutcome persisted c = Success
                           \<and> infoMessage s' = Some (SuccessMsg c n t)))
           \<and> (files s ExpireTxt \<noteq> None \<longrightarrow> files s' ExpireTxt \<noteq> None)
           \<and> (r = Inr () \<longrightarrow>
                 (\<exists>a b t. infoMessage s' = Some (NotYetMsg a b t))
                   \<or> (\<exists>c n t. infoMessage s' = Some (SuccessMsg c n t))
                   \<or> (\<exists>c t. infoMessage s' = Some (FailMsg c t)))
           \<and> (r \<noteq> Inr () \<longrightarrow> infoMessage s' = infoMessage s
                 \<or> (\<exists>c n t. infoMessage s' = Some (SuccessMsg c n t)))"
  using assms
  unfolding afterCaptcha_def reportNotYet_def confirmAndVerify_def
  by (auto simp: andThen_def ok_def throw_def emit_def perform_def writeFileSync_def
      getBeijingTimeString_def setInfoMessage_def Let_def
      split: option.splits outcome.splits if_splits)

lemma finallyBlock_run:
  "\<exists>evs. trace (snd (finallyBlock env s)) = trace s @ Sleep 5000 # RecorderStop # evs
         \<and> list_all cleanup_event evs \<and> RecorderStop \<notin> set evs
         \<and> length (filter (\<lambda>e. e = BrowserClose) evs) \<le> 1
         \<and> length (filter is_telegram evs) \<le> 1
         \<and> files (snd (finallyBlock env s)) = files s
         \<and> infoMessage (snd (finallyBlock env s)) = infoMessage s
         \<and> scriptErrorMessage (snd (finallyBlock env s)) = scriptErrorMessage s"
  unfolding finallyBlock_def uploadToWebDAV_def sendTelegramMessage_def composeNotification_def
  by (auto simp: andThen_def ok_def emit_def perform_def split: option.splits)

lemma readLastExpireDate_value:
  "readLastExpireDate env s = (Inr x, s1) \<Longrightarrow> x = persistedDate (files s)"
  by (auto simp: readLastExpireDate_def persistedDate_def andThen_def ok_def perform_def
      split: option.splits)

lemma keeps_snd: "keeps P m \<Longrightarrow> m s = (r, s') \<Longrightarrow> quiet P s s'"
  by (auto simp: keeps_def dest: spec [of _ s])

lemma tryBlock_cases:
  obtains (before) e s1 where "tryBlock env s = (Inl e, s1)" "quiet pre_event s s1"
  | (captcha) e s1 s2 where "quiet pre_event s s1" "solveCaptcha env s1 = (Inl e, s2)"
      "tryBlock env s = (Inl e, s2)"
  | (after) s1 s2 where "quiet pre_event s s1" "solveCaptcha env s1 = (Inr (), s2)"
      "tryBlock env s = afterCaptcha env (persistedDate (files s))
                          (formatChineseDate (currentExpireDateRaw env)) s2"
proof -
  define open_page where "open_page =
    andThen (loginAndOpenContract env) (\<lambda>_.
    andThen (emit GetExpirationDate) (\<lambda>_. initiateRenewal env))"
  have kp: "keeps pre_event open_page"
    unfolding open_page_def
    by (intro keeps_andThen keeps_loginAndOpenContract keeps_initiateRenewal keeps_emit) simp
  obtain r0 s0 where r0: "readLastExpireDate env s = (r0, s0)"
    by (cases "readLastExpireDate env s")
  have q0: "quiet pre_event s s0" using keeps_readLastExpireDate r0 by (rule keeps_snd)
  show ?thesis
  proof (cases r0)
    case (Inl e)
    with r0 have "tryBlock env s = (Inl e, s0)" by (simp add: tryBlock_def andThen_def)
    from this q0 show ?thesis by (rule before)
  next
    case (Inr x)
    with r0 have x: "x = persistedDate (files s)" by (auto dest: readLastExpireDate_value)
    have tb: "tryBlock env s =
        andThen open_page (\<lambda>_. andThen (solveCaptcha env) (\<lambda>_.
          afterCaptcha env x (formatChineseDate (currentExpireDateRaw env)))) s0"
      using r0 Inr by (auto simp: tryBlock_def open_page_def andThen_def split: prod.splits sum.splits)
    obtain r1 s1 where r1: "open_page s0 = (r1, s1)" by (cases "open_page s0")
    have "quiet pre_event s0 s1" using kp r1 by (rule keeps_snd)
    with q0 have q1: "quiet pre_event s s1" by (rule quiet_trans)
    show ?thesis
    proof (cases r1)
      case (Inl e)
      with tb r1 have "tryBlock env s = (Inl e, s1)" by (simp add: andThen_def)
      from this q1 show ?thesis by (rule before)
    next
      case open_ok: (Inr u)
      obtain r2 s2 where r2: "solveCaptcha env s1 = (r2, s2)" by (cases "solveCaptcha env s1")
      show ?thesis
      proof (cases r2)
        case (Inl e)
        with tb r1 open_ok r2 have "tryBlock env s = (Inl e, s2)" by (simp add: andThen_def)
        with q1 r2 Inl show ?thesis by (intro captcha [of s1 e s2]) simp_all
      next
        case (Inr v)
        with tb r1 open_ok r2 x have "tryBlock env s =
            afterCaptcha env (persistedDate (files s))
              (formatChineseDate (currentExpireDateRaw env)) s2"
          by (simp add: andThen_def)
        with q1 r2 Inr show ?thesis by (intro after [of s1 s2]) simp_all
      qed
    qed
  qed
qed

lemma tryBlock_run:
  assumes "tryBlock env s = (r, s')"
  obtains pre loop after where
    "trace s' = trace s @ pre @ loop @ after"
    "list_all pre_event pre" "loop_trace maxCaptchaTries loop" "list_all post_event after"
    "after \<noteq> [] \<Longrightarrow> QueryCaptchaImg \<in> set loop"
    "scriptErrorMessage s' = scriptErrorMessage s"
    "\<And>c. WriteFile ExpireTxt c \<in> set after \<Longrightarrow>
       classifyOutcome (persistedDate (files s)) c = Success
         \<and> (\<exists>n t. infoMessage s' = Some (SuccessMsg c n t))"
    "files s' ExpireTxt = files s ExpireTxt
       \<or> r = Inr ()
           \<and> (\<exists>c n t. files s' ExpireTxt = Some c
                 \<and> classifyOutcome (persistedDate (files s)) c = Success
                 \<and> infoMessage s' = Some (SuccessMsg c n t))"
    "files s ExpireTxt \<noteq> None \<Longrightarrow> files s' ExpireTxt \<noteq> None"
    "r = Inr () \<Longrightarrow>
       (\<exists>a b t. infoMessage s' = Some (NotYetMsg a b t))
         \<or> (\<exists>c n t. infoMessage s' = Some (SuccessMsg c n t))
         \<or> (\<exists>c t. infoMessage s' = Some (FailMsg c t))"
    "r \<noteq> Inr () \<Longrightarrow>
       infoMessage s' = infoMessage s \<or> (\<exists>c n t. infoMessage s' = Some (SuccessMsg c n t))"
proof (cases rule: tryBlock_cases [of env s])
  case (before e s1)
  with assms have rs: "r = Inl e" "s' = s1" by simp_all
  from before(2) obtain pre where "trace s1 = trace s @ pre" "list_all pre_event pre"
    and "files s1 ExpireTxt = files s ExpireTxt" "infoMessage s1 = infoMessage s"
      "scriptErrorMessage s1 = scriptErrorMessage s"
    by (auto simp: quiet_def)
  with rs show ?thesis by (intro that [of pre "[]" "[]"]) (simp_all add: loop_trace_Nil)
next
  case (captcha e s1 s2)
  with assms have rs: "r = Inl e" "s' = s2" by simp_all
  from captcha(1) obtain pre where pre: "trace s1 = trace s @ pre" "list_all pre_event pre"
    and u1: "files s1 ExpireTxt = files s ExpireTxt" "infoMessage s1 = infoMessage s"
      "scriptErrorMessage s1 = scriptErrorMessage s"
    by (auto simp: quiet_def)
  from solveCaptcha_run [of env s1] captcha(2) obtain loop where
    loop: "trace s2 = trace s1 @ loop" "loop_trace maxCaptchaTries loop" and u2: "unchanged s1 s2"
    by auto
  from pre loop u1 u2 rs show ?thesis
    by (intro that [of pre loop "[]"]) (simp_all add: unchanged_def)
next
  case (after s1 s2)
  from after(1) obtain pre where pre: "trace s1 = trace s @ pre" "list_all pre_event pre"
    and u1: "files s1 ExpireTxt = files s ExpireTxt" "infoMessage s1 = infoMessage s"
      "scriptErrorMessage s1 = scriptErrorMessage s"
    by (auto simp: quiet_def)
  from solveCaptcha_run [of env s1] after(2) obtain loop where
    loop: "trace s2 = trace s1 @ loop" "loop_trace maxCaptchaTries loop"
      "QueryCaptchaImg \<in> set loop" and u2: "unchanged s1 s2"
    by auto
  from after(3) assms have ac: "afterCaptcha env (persistedDate (files s))
      (formatChineseDate (currentExpireDateRaw env)) s2 = (r, s')" by simp
  from afterCaptcha_run [OF ac] obtain evs where
    evs: "trace s' = trace s2 @ GetBodyText # evs" "list_all post_event evs"
      "scriptErrorMessage s' = scriptErrorMessage s2"
      "\<forall>c. WriteFile ExpireTxt c \<in> set evs \<longrightarrow>
         classifyOutcome (persistedDate (files s)) c = Success
           \<and> (\<exists>n t. infoMessage s' = Some (SuccessMsg c n t))"
      "files s' ExpireTxt = files s2 ExpireTxt
         \<or> r = Inr ()
             \<and> (\<exists>c n t. files s' ExpireTxt = Some c
                   \<and> classifyOutcome (persistedDate (files s)) c = Success
                   \<and> infoMessage s' = Some (SuccessMsg c n t))"
      "files s2 ExpireTxt \<noteq> None \<longrightarrow> files s' ExpireTxt \<noteq> None"
      "r = Inr () \<longrightarrow>
         (\<exists>a b t. infoMessage s' = Some (NotYetMsg a b t))
           \<or> (\<exists>c n t. infoMessage s' = Some (SuccessMsg c n t))
           \<or> (\<exists>c t. infoMessage s' = Some (FailMsg c t))"
      "r \<noteq> Inr () \<longrightarrow> infoMessage s' = infoMessage s2
         \<or> (\<exists>c n t. infoMessage s' = Some (SuccessMsg c n t))"
    by blast
  have f: "files s2 ExpireTxt = files s ExpireTxt" "infoMessage s2 = infoMessage s"
      "scriptErrorMessage s2 = scriptErrorMessage s"
    using u1 u2 by (simp_all add: unchanged_def)
  show ?thesis
  proof (rule that [of pre loop "GetBodyText # evs"])
    show "trace s' = trace s @ pre @ loop @ GetBodyText # evs" using pre loop evs(1) by simp
    show "list_all post_event (GetBodyText # evs)" using evs(2) by simp
    show "\<And>c. WriteFile ExpireTxt c \<in> set (GetBodyText # evs) \<Longrightarrow>
       classifyOutcome (persistedDate (files s)) c = Success
         \<and> (\<exists>n t. infoMessage s' = Some (SuccessMsg c n t))"
      using evs(4) by simp
  qed (use pre loop evs f in auto)
qed

lemma script_eq:
  "script env s =
     finallyBlock env
       (case fst (tryBlock env s) of
          Inl e \<Rightarrow> (snd (tryBlock env s))
                     \<lparr>scriptErrorMessage :=
                        Some (ErrorMsg e (clock env (length (trace (snd (tryBlock env s))))))\<rparr>
        | Inr u \<Rightarrow> snd (tryBlock env s))"
  by (auto simp: script_def catchBlock_def andThen_def getBeijingTimeString_def
      split: prod.splits sum.splits)

lemma pre_event_excludes:
  "pre_event e \<Longrightarrow>
     e \<noteq> RecorderStop \<and> \<not> is_telegram e \<and> \<not> is_query e \<and> \<not> is_fetch e \<and> \<not> is_submit e
       \<and> e \<noteq> GetBodyText \<and> e \<noteq> Click ConfirmContinue
       \<and> (\<forall>c. e \<noteq> WriteFile ExpireTxt c) \<and> (\<forall>c. e \<noteq> Fill CaptchaInput c)"
  by (cases e) auto

lemma loop_event_excludes:
  "loop_event e \<Longrightarrow>
     e \<noteq> RecorderStop \<and> \<not> is_telegram e
       \<and> e \<noteq> GetBodyText \<and> e \<noteq> Click ConfirmContinue
       \<and> (\<forall>c. e \<noteq> WriteFile ExpireTxt c) \<and> (\<forall>c. e = Fill CaptchaInput c \<longrightarrow> 4 \<le> length c)"
  by (cases e) auto

lemma post_event_excludes:
  "post_event e \<Longrightarrow>
     e \<noteq> RecorderStop \<and> \<not> is_telegram e \<and> \<not> is_query e \<and> \<not> is_fetch e \<and> \<not> is_submit e
       \<and> (\<forall>c. e \<noteq> Fill CaptchaInput c)"
  by (cases e) auto

lemma cleanup_event_excludes:
  "cleanup_event e \<Longrightarrow>
     \<not> is_query e \<and> \<not> is_fetch e \<and> \<not> is_submit e
       \<and> e \<noteq> GetBodyText \<and> e \<noteq> Click ConfirmContinue
       \<and> (\<forall>c. e \<noteq> WriteFile ExpireTxt c) \<and> (\<forall>c. e \<noteq> Fill CaptchaInput c)"
  by (cases e) auto

lemma filter_none: "list_all P xs \<Longrightarrow> (\<And>e. P e \<Longrightarrow> \<not> Q e) \<Longrightarrow> filter Q xs = []"
  by (induction xs) auto

lemma script_run:
  fixes env fs
  defines "fin \<equiv> snd (script env (initial fs))"
  obtains pre loop after cleanup where
    "trace fin = pre @ loop @ after @ Sleep 5000 # RecorderStop # cleanup"
    "list_all pre_event pre" "loop_trace maxCaptchaTries loop" "list_all post_event after"
    "list_all cleanup_event cleanup" "RecorderStop \<notin> set cleanup"
    "length (filter is_telegram cleanup) \<le> 1"
    "after \<noteq> [] \<Longrightarrow> QueryCaptchaImg \<in> set loop"
    "\<And>c. WriteFile ExpireTxt c \<in> set after \<Longrightarrow>
       classifyOutcome (persistedDate fs) c = Success
         \<and> (\<exists>n t. infoMessage fin = Some (SuccessMsg c n t))"
    "files fin ExpireTxt = fs ExpireTxt
       \<or> scriptErrorMessage fin = None
           \<and> (\<exists>c n t. files fin ExpireTxt = Some c
                 \<and> classifyOutcome (persistedDate fs) c = Success
                 \<and> infoMessage fin = Some (SuccessMsg c n t))"
    "fs ExpireTxt \<noteq> None \<Longrightarrow> files fin ExpireTxt \<noteq> None"
    "terminal_state fin \<noteq> None"
proof -
  obtain r s1 where tb: "tryBlock env (initial fs) = (r, s1)"
    by (cases "tryBlock env (initial fs)")
  define s2 where "s2 = (case r of
      Inl e \<Rightarrow> s1\<lparr>scriptErrorMessage := Some (ErrorMsg e (clock env (length (trace s1))))\<rparr>
    | Inr u \<Rightarrow> s1)"
  have fin: "fin = snd (finallyBlock env s2)"
    using tb by (cases r) (simp_all add: fin_def script_eq s2_def)
  have s2: "trace s2 = trace s1" "files s2 = files s1" "infoMessage s2 = infoMessage s1"
    by (simp_all add: s2_def split: sum.splits)
  from finallyBlock_run [of env s2] fin obtain cleanup where
    c: "trace fin = trace s2 @ Sleep 5000 # RecorderStop # cleanup"
      "list_all cleanup_event cleanup" "RecorderStop \<notin> set cleanup"
      "length (filter is_telegram cleanup) \<le> 1"
      "files fin = files s2" "infoMessage fin = infoMessage s2"
      "scriptErrorMessage fin = scriptErrorMessage s2"
    by auto
  from tb show ?thesis
  proof (rule tryBlock_run)
    fix pre loop after
    assume t: "trace s1 = trace (initial fs) @ pre @ loop @ after"
      "list_all pre_event pre" "loop_trace maxCaptchaTries loop" "list_all post_event after"
      "after \<noteq> [] \<Longrightarrow> QueryCaptchaImg \<in> set loop"
      "scriptErrorMessage s1 = scriptErrorMessage (initial fs)"
      "\<And>c. WriteFile ExpireTxt c \<in> set after \<Longrightarrow>
         classifyOutcome (persistedDate (files (initial fs))) c = Success
           \<and> (\<exists>n t. infoMessage s1 = Some (SuccessMsg c n t))"
      "files s1 ExpireTxt = files (initial fs) ExpireTxt
         \<or> r = Inr ()
             \<and> (\<exists>c n t. files s1 ExpireTxt = Some c
                   \<and> classifyOutcome (persistedDate (files (initial fs))) c = Success
                   \<and> infoMessage s1 = Some (SuccessMsg c n t))"
      "files (initial fs) ExpireTxt \<noteq> None \<Longrightarrow> files s1 ExpireTxt \<noteq> None"
      "r = Inr () \<Longrightarrow>
         (\<exists>a b t. infoMessage s1 = Some (NotYetMsg a b t))
           \<or> (\<exists>c n t. infoMessage s1 = Some (SuccessMsg c n t))
           \<or> (\<exists>c t. infoMessage s1 = Some (FailMsg c t))"
    have err: "scriptErrorMessage s2 = (case r of Inl e \<Rightarrow>
        Some (ErrorMsg e (clock env (length (trace s1)))) | Inr u \<Rightarrow> None)"
      using t(6) by (simp add: s2_def initial_def split: sum.splits)
    have reached: "terminal_state fin \<noteq> None"
    proof (cases r)
      case (Inl e)
      with err c(7) show ?thesis by (simp add: terminal_state_def)
    next
      case (Inr u)
      with err c(7) have "scriptErrorMessage fin = None" by simp
      moreover from Inr t(10) c(6) s2(3) have
        "(\<exists>a b t. infoMessage fin = Some (NotYetMsg a b t))
           \<or> (\<exists>c n t. infoMessage fin = Some (SuccessMsg c n t))
           \<or> (\<exists>c t. infoMessage fin = Some (FailMsg c t))" by simp
      ultimately show ?thesis by (auto simp: terminal_state_def)
    qed
    show ?thesis
    proof (rule that [of pre loop after cleanup])
      show "trace fin = pre @ loop @ after @ Sleep 5000 # RecorderStop # cleanup"
        using c(1) s2(1) t(1) by (simp add: initial_def)
      show "\<And>c. WriteFile ExpireTxt c \<in> set after \<Longrightarrow>
         classifyOutcome (persistedDate fs) c = Success
           \<and> (\<exists>n t. infoMessage fin = Some (SuccessMsg c n t))"
        using t(7) c(6) s2(3) by (simp add: initial_def)
      show "files fin ExpireTxt = fs ExpireTxt
         \<or> scriptErrorMessage fin = None
             \<and> (\<exists>c n t. files fin ExpireTxt = Some c
                   \<and> classifyOutcome (persistedDate fs) c = Success
                   \<and> infoMessage fin = Some (SuccessMsg c n t))"
        using t(8) c(5,6,7) s2(2,3) err by (auto simp: initial_def)
      show "fs ExpireTxt \<noteq> None \<Longrightarrow> files fin ExpireTxt \<noteq> None"
        using t(9) c(5) s2(2) by (simp add: initial_def)
    qed (use t c reached in auto)
  qed
qed

lemma andThen_assoc: "andThen (andThen m f) g = andThen m (\<lambda>x. andThen (f x) g)"
  by (auto simp: andThen_def fun_eq_iff split: prod.splits sum.splits)

lemma andThen_ok: "andThen (ok x) f s = f x s"
  by (simp add: andThen_def ok_def)

lemma andThen_throw: "andThen (throw e) f s = (Inl e, s)"
  by (simp add: andThen_def throw_def)

lemma andThen_emit: "andThen (emit ev) f s = f () (s\<lparr>trace := trace s @ [ev]\<rparr>)"
  by (simp add: andThen_def emit_def)

lemma andThen_perform:
  "fails env (length (trace s)) = None \<Longrightarrow>
     andThen (perform env ev) f s = f () (s\<lparr>trace := trace s @ [ev]\<rparr>)"
  by (simp add: andThen_def perform_def)

lemma andThen_readLastExpireDate:
  "andThen (readLastExpireDate env) f s =
     (case files s ExpireTxt of
        None \<Rightarrow> f [] s
      | Some content \<Rightarrow> andThen (perform env (ReadFile ExpireTxt)) (\<lambda>_. f (trim content)) s)"
  by (auto simp: andThen_def readLastExpireDate_def ok_def split: option.splits prod.splits sum.splits)

lemma andThen_getBeijingTimeString:
  "andThen (getBeijingTimeString env) f s = f (clock env (length (trace s))) s"
  by (simp add: andThen_def getBeijingTimeString_def)

lemma andThen_setInfoMessage:
  "andThen (setInfoMessage m) f s = f () (s\<lparr>infoMessage := Some m\<rparr>)"
  by (simp add: andThen_def setInfoMessage_def)

lemma writeFileSync_ok:
  "fails env (length (trace s)) = None \<Longrightarrow>
     writeFileSync env f c s
       = (Inr (), s\<lparr>trace := trace s @ [WriteFile f c], files := (files s)(f \<mapsto> c)\<rparr>)"
  by (simp add: writeFileSync_def andThen_def perform_def)

lemmas run_simps = andThen_assoc andThen_ok andThen_throw andThen_emit andThen_perform
  andThen_readLastExpireDate andThen_getBeijingTimeString andThen_setInfoMessage
  writeFileSync_ok

lemma tryBlock_nofail:
  assumes "fails env = (\<lambda>_. None)"
  shows "tryBlock env (initial fs) =
           andThen (solveCaptcha env)
             (\<lambda>_. afterCaptcha env (persistedDate fs)
                     (formatChineseDate (currentExpireDateRaw env)))
             \<lparr>files = fs, trace = opening_trace fs env, infoMessage = None,
              scriptErrorMessage = None\<rparr>"
  using assms
  by (simp add: tryBlock_def loginAndOpenContract_def initiateRenewal_def initial_def
      persistedDate_def opening_trace_def run_simps split: option.splits)

lemma captchaLoop_step:
  "a \<le> maxCaptchaTries \<Longrightarrow>
     captchaLoop env a s =
       (case captchaAttempt env a s of
          (Inl e, s') \<Rightarrow> (Inl e, s')
        | (Inr Break_solved, s') \<Rightarrow> (Inr True, s')
        | (Inr Continue, s') \<Rightarrow> captchaLoop env (a + 1) s')"
  by (subst captchaLoop.simps) simp

lemma captchaLoop_done: "\<not> a \<le> maxCaptchaTries \<Longrightarrow> captchaLoop env a s = (Inr False, s)"
  by (subst captchaLoop.simps) simp

lemma captchaAttempt_no_image:
  assumes "captchaImg env a = None"
  shows "(\<exists>n. trace (snd (captchaAttempt env a s))
             = trace s @ take n [QueryCaptchaImg, GetPageContent,
                                 WriteFile NoCaptchaHtml (pageContent env)])
         \<and> (fst (captchaAttempt env a s) = Inr Break_solved
              \<or> (\<exists>msg. fst (captchaAttempt env a s) = Inl (External msg)))"
proof -
  let ?evs = "[QueryCaptchaImg, GetPageContent, WriteFile NoCaptchaHtml (pageContent env)]"
  have t: "take 1 ?evs = [QueryCaptchaImg]" "take 2 ?evs = [QueryCaptchaImg, GetPageContent]"
    "take 3 ?evs = ?evs" by simp_all
  consider (q) msg where "fails env (length (trace s)) = Some msg"
    | (c) msg where "fails env (length (trace s)) = None"
        "fails env (Suc (length (trace s))) = Some msg"
    | (w) msg where "fails env (length (trace s)) = None"
        "fails env (Suc (length (trace s))) = None"
        "fails env (Suc (Suc (length (trace s)))) = Some msg"
    | (ok) "fails env (length (trace s)) = None"
        "fails env (Suc (length (trace s))) = None"
        "fails env (Suc (Suc (length (trace s)))) = None"
    by (cases "fails env (length (trace s))"; cases "fails env (Suc (length (trace s)))";
        cases "fails env (Suc (Suc (length (trace s))))") blast+
  then show ?thesis
  proof cases
    case q
    then have "captchaAttempt env a s = (Inl (External msg), s\<lparr>trace := trace s @ take 1 ?evs\<rparr>)"
      using assms by (simp add: captchaAttempt_def andThen_def perform_def)
    then show ?thesis by (intro conjI exI [of _ 1]) simp_all
  next
    case c
    then have "captchaAttempt env a s = (Inl (External msg), s\<lparr>trace := trace s @ take 2 ?evs\<rparr>)"
      using assms by (simp add: captchaAttempt_def andThen_def perform_def)
    then show ?thesis by (intro conjI exI [of _ 2]) simp_all
  next
    case w
    then have "captchaAttempt env a s = (Inl (External msg), s\<lparr>trace := trace s @ take 3 ?evs\<rparr>)"
      using assms by (simp add: captchaAttempt_def andThen_def perform_def writeFileSync_def)
    then show ?thesis by (intro conjI exI [of _ 3]) simp_all
  next
    case ok
    then have "captchaAttempt env a s = (Inr Break_solved,
        s\<lparr>trace := trace s @ take 3 ?evs, files := (files s)(NoCaptchaHtml \<mapsto> pageContent env)\<rparr>)"
      using assms by (simp add: captchaAttempt_def andThen_def perform_def writeFileSync_def ok_def)
    then show ?thesis by (intro conjI exI [of _ 3]) simp_all
  qed
qed

lemma captchaLoop_no_image:
  assumes "a \<le> maxCaptchaTries" "captchaImg env a = None"
  shows "(\<exists>n. trace (snd (captchaLoop env a s))
             = trace s @ take n [QueryCaptchaImg, GetPageContent,
                                 WriteFile NoCaptchaHtml (pageContent env)])
         \<and> (fst (captchaLoop env a s) = Inr True
              \<or> (\<exists>msg. fst (captchaLoop env a s) = Inl (External msg)))"
proof -
  obtain r s' where at: "captchaAttempt env a s = (r, s')" by (cases "captchaAttempt env a s")
  from captchaAttempt_no_image [OF assms(2), of s] at
  have tr: "\<exists>n. trace s' = trace s @ take n [QueryCaptchaImg, GetPageContent,
                                 WriteFile NoCaptchaHtml (pageContent env)]"
    and r: "r = Inr Break_solved \<or> (\<exists>msg. r = Inl (External msg))" by simp_all
  from r have "captchaLoop env a s = (case r of Inl e \<Rightarrow> Inl e | Inr u \<Rightarrow> Inr True, s')"
    using assms(1) at by (auto simp: captchaLoop_step)
  with tr r show ?thesis by auto
qed

lemma captchaLoop_no_image_ok:
  assumes "a \<le> maxCaptchaTries" "captchaImg env a = None"
    and "fails env (length (trace s)) = None" "fails env (Suc (length (trace s))) = None"
      "fails env (Suc (Suc (length (trace s)))) = None"
  shows "captchaLoop env a s =
           (Inr True, s\<lparr>trace := trace s @ [QueryCaptchaImg, GetPageContent,
                                               WriteFile NoCaptchaHtml (pageContent env)],
                        files := (files s)(NoCaptchaHtml \<mapsto> pageContent env)\<rparr>)"
  using assms
  by (simp add: captchaLoop_step captchaAttempt_def andThen_def perform_def writeFileSync_def
      ok_def)

text \<open>
  Claim C9. When the probe of an attempt finds no inline image, the loop ends at once: it
  makes no further probe and no recognition request, its only effects are the probe, the
  reading of the page content and the writing of the page file, and its result is solved
  unless one of these three calls itself throws; the error of line 267 is never raised. When
  the three calls do not throw, the result is solved and the page file is written.
\<close>

theorem no_captcha_image_succeeds_immediately:
  "a \<le> maxCaptchaTries \<and> captchaImg env a = None \<longrightarrow>
     (\<exists>n. trace (snd (captchaLoop env a s))
             = trace s @ take n [QueryCaptchaImg, GetPageContent,
                                 WriteFile NoCaptchaHtml (pageContent env)])
     \<and> (fst (captchaLoop env a s) = Inr True
          \<or> (\<exists>msg. fst (captchaLoop env a s) = Inl (External msg)))
     \<and> (a = 1 \<longrightarrow> fst (solveCaptcha env s) \<noteq> Inl CaptchaUnsolved)
     \<and> (fails env (length (trace s)) = None \<and> fails env (Suc (length (trace s))) = None
          \<and> fails env (Suc (Suc (length (trace s)))) = None \<longrightarrow>
          captchaLoop env a s =
            (Inr True, s\<lparr>trace := trace s @ [QueryCaptchaImg, GetPageContent,
                                                WriteFile NoCaptchaHtml (pageContent env)],
                         files := (files s)(NoCaptchaHtml \<mapsto> pageContent env)\<rparr>))"
proof (intro impI)
  assume a: "a \<le> maxCaptchaTries \<and> captchaImg env a = None"
  note l = captchaLoop_no_image [of a env s]
  have "fst (solveCaptcha env s) \<noteq> Inl CaptchaUnsolved" if "a = 1"
  proof -
    obtain r s' where c: "captchaLoop env 1 s = (r, s')" by (cases "captchaLoop env 1 s")
    with l a that have "r = Inr True \<or> (\<exists>msg. r = Inl (External msg))" by simp
    with c show ?thesis by (auto simp: solveCaptcha_def andThen_def ok_def)
  qed
  with a l captchaLoop_no_image_ok [of a env s] show
    "(\<exists>n. trace (snd (captchaLoop env a s))
             = trace s @ take n [QueryCaptchaImg, GetPageContent,
                                 WriteFile NoCaptchaHtml (pageContent env)])
     \<and> (fst (captchaLoop env a s) = Inr True
          \<or> (\<exists>msg. fst (captchaLoop env a s) = Inl (External msg)))
     \<and> (a = 1 \<longrightarrow> fst (solveCaptcha env s) \<noteq> Inl CaptchaUnsolved)
     \<and> (fails env (length (trace s)) = None \<and> fails env (Suc (length (trace s))) = None
          \<and> fails env (Suc (Suc (length (trace s)))) = None \<longrightarrow>
          captchaLoop env a s =
            (Inr True, s\<lparr>trace := trace s @ [QueryCaptchaImg, GetPageContent,
                                                WriteFile NoCaptchaHtml (pageContent env)],
                         files := (files s)(NoCaptchaHtml \<mapsto> pageContent env)\<rparr>))"
    by blast
qed

text \<open>
  An environment without a CAPTCHA: the loop is solved at the first attempt with one probe,
  and the page is saved.
\<close>

theorem no_captcha_image_succeeds_immediately_witness:
  "(1::nat) \<le> maxCaptchaTries \<and> captchaImg plain_env 1 = None
     \<and> captchaLoop plain_env 1 (initial (\<lambda>_. None))
         = (Inr True,
            \<lparr>files = (\<lambda>_. None)(NoCaptchaHtml \<mapsto> []),
             trace = [QueryCaptchaImg, GetPageContent, WriteFile NoCaptchaHtml []],
             infoMessage = None, scriptErrorMessage = None\<rparr>)
     \<and> fst (solveCaptcha plain_env (initial (\<lambda>_. None))) \<noteq> Inl CaptchaUnsolved"
  using no_captcha_image_succeeds_immediately [of 1 plain_env "initial (\<lambda>_. None)"]
  by (simp add: plain_env_def maxCaptchaTries_def initial_def)

lemma captchaAttempt_unsuccessful:
  "attempt_unsuccessful env a \<Longrightarrow> fst (captchaAttempt env a s) \<noteq> Inr Break_solved"
  unfolding attempt_unsuccessful_def captchaAttempt_def
  by (auto simp: andThen_def ok_def emit_def perform_def split: option.splits)

lemma captchaAttempt_unsuccessful_nofail:
  "attempt_unsuccessful env a \<Longrightarrow> fails env = (\<lambda>_. None) \<Longrightarrow>
     fst (captchaAttempt env a s) = Inr Continue"
  unfolding attempt_unsuccessful_def captchaAttempt_def
  by (auto simp: andThen_def ok_def emit_def perform_def split: option.splits)

lemma captchaLoop_exhausted:
  "(\<And>k. a \<le> k \<Longrightarrow> k \<le> maxCaptchaTries \<Longrightarrow> attempt_unsuccessful env k) \<Longrightarrow>
     fst (captchaLoop env a s) \<noteq> Inr True
       \<and> (fails env = (\<lambda>_. None) \<longrightarrow> fst (captchaLoop env a s) = Inr False)"
proof (induction env a s rule: captchaLoop.induct)
  case (1 env a s)
  show ?case
  proof (cases "a \<le> maxCaptchaTries")
    case False
    then show ?thesis by (simp add: captchaLoop_done)
  next
    case True
    obtain r s' where at: "captchaAttempt env a s = (r, s')" by (cases "captchaAttempt env a s")
    have un: "attempt_unsuccessful env a" using "1.prems" True by simp
    from captchaAttempt_unsuccessful [OF un, of s] at have nb: "r \<noteq> Inr Break_solved" by simp
    from captchaAttempt_unsuccessful_nofail [OF un, of s] at
    have nf: "fails env = (\<lambda>_. None) \<Longrightarrow> r = Inr Continue" by simp
    show ?thesis
    proof (cases "r = Inr Continue")
      case False
      with nb obtain e where "r = Inl e" by (cases r) (auto intro: loop_step.exhaust)
      with True at nf show ?thesis by (auto simp: captchaLoop_step)
    next
      case Continue: True
      have "fst (captchaLoop env (a + 1) s') \<noteq> Inr True
          \<and> (fails env = (\<lambda>_. None) \<longrightarrow> fst (captchaLoop env (a + 1) s') = Inr False)"
        using "1.prems" by (intro "1.IH" [OF True at [symmetric] Continue refl]) simp_all
      with True at Continue show ?thesis by (simp add: captchaLoop_step)
    qed
  qed
qed

lemma solveCaptcha_exhausted:
  assumes "attempt_unsuccessful env 1" "attempt_unsuccessful env 2" "attempt_unsuccessful env 3"
  shows "fst (solveCaptcha env s) \<noteq> Inr ()
           \<and> (fails env = (\<lambda>_. None) \<longrightarrow> fst (solveCaptcha env s) = Inl CaptchaUnsolved)"
proof -
  have all: "attempt_unsuccessful env k" if "1 \<le> k" "k \<le> maxCaptchaTries" for k
  proof -
    from that have "k = 1 \<or> k = 2 \<or> k = 3" by (auto simp: maxCaptchaTries_def)
    with assms show ?thesis by auto
  qed
  obtain r s' where c: "captchaLoop env 1 s = (r, s')" by (cases "captchaLoop env 1 s")
  from captchaLoop_exhausted [of 1 env s] all c
  have "r \<noteq> Inr True" "fails env = (\<lambda>_. None) \<longrightarrow> r = Inr False" by simp_all
  with c show ?thesis
    by (cases r) (auto simp: solveCaptcha_def andThen_def ok_def throw_def)
qed

lemma script_exhausted:
  fixes env fs
  defines "fin \<equiv> snd (script env (initial fs))"
  assumes "attempt_unsuccessful env 1" "attempt_unsuccessful env 2" "attempt_unsuccessful env 3"
  shows "terminal_state fin = Some Terminal_Error \<and> infoMessage fin = None
           \<and> GetBodyText \<notin> set (trace fin) \<and> Click ConfirmContinue \<notin> set (trace fin)
           \<and> files fin ExpireTxt = fs ExpireTxt
           \<and> (fails env = (\<lambda>_. None) \<longrightarrow>
                (\<exists>t. scriptErrorMessage fin = Some (ErrorMsg CaptchaUnsolved t)))"
proof -
  note ex = solveCaptcha_exhausted [OF assms(2-4)]
  have "\<exists>e s1 evs. tryBlock env (initial fs) = (Inl e, s1) \<and> trace s1 = evs
          \<and> list_all (\<lambda>e. pre_event e \<or> loop_event e) evs \<and> unchanged (initial fs) s1
          \<and> (fails env = (\<lambda>_. None) \<longrightarrow> e = CaptchaUnsolved)"
  proof (cases rule: tryBlock_cases [of env "initial fs"])
    case (before e s1)
    from before(2) have "list_all (\<lambda>e. pre_event e \<or> loop_event e) (trace s1)"
      "unchanged (initial fs) s1"
      by (auto simp: quiet_def unchanged_def initial_def list_all_iff)
    moreover have "e = CaptchaUnsolved" if nf: "fails env = (\<lambda>_. None)"
    proof -
      let ?s = "\<lparr>files = fs, trace = opening_trace fs env, infoMessage = None,
              scriptErrorMessage = None\<rparr>"
      from ex [of ?s] nf have "fst (solveCaptcha env ?s) = Inl CaptchaUnsolved" by simp
      then have "fst (tryBlock env (initial fs)) = Inl CaptchaUnsolved"
        unfolding tryBlock_nofail [OF nf]
        by (cases "solveCaptcha env ?s") (simp add: andThen_def)
      with before(1) show ?thesis by simp
    qed
    ultimately show ?thesis using before(1) by simp
  next
    case (captcha e s1 s2)
    from solveCaptcha_run [of env s1] captcha(2) obtain loop where
      loop: "trace s2 = trace s1 @ loop" "loop_trace maxCaptchaTries loop" "unchanged s1 s2"
      by auto
    from captcha(1) loop have "list_all (\<lambda>e. pre_event e \<or> loop_event e) (trace s2)"
      "unchanged (initial fs) s2"
      by (auto simp: quiet_def unchanged_def initial_def list_all_iff loop_trace_def)
    moreover have "e = CaptchaUnsolved" if nf: "fails env = (\<lambda>_. None)"
      using ex [of s1] captcha(2) nf by simp
    ultimately show ?thesis using captcha(3) by simp
  next
    case (after s1 s2)
    with ex [of s1] show ?thesis by simp
  qed
  then obtain e s1 where tb: "tryBlock env (initial fs) = (Inl e, s1)"
    and evs: "list_all (\<lambda>e. pre_event e \<or> loop_event e) (trace s1)"
    and un: "unchanged (initial fs) s1"
    and ce: "fails env = (\<lambda>_. None) \<longrightarrow> e = CaptchaUnsolved"
    by blast
  let ?s2 = "s1\<lparr>scriptErrorMessage := Some (ErrorMsg e (clock env (length (trace s1))))\<rparr>"
  have fin: "fin = snd (finallyBlock env ?s2)" using tb by (simp add: fin_def script_eq)
  from finallyBlock_run [of env ?s2] fin obtain cleanup where
    c: "trace fin = trace s1 @ Sleep 5000 # RecorderStop # cleanup"
      "list_all cleanup_event cleanup"
      "files fin = files s1" "infoMessage fin = infoMessage s1"
      "scriptErrorMessage fin = Some (ErrorMsg e (clock env (length (trace s1))))"
    by auto
  have "GetBodyText \<notin> set (trace s1)" "Click ConfirmContinue \<notin> set (trace s1)"
    using evs pre_event_excludes loop_event_excludes by (auto simp: list_all_iff)
  moreover have "GetBodyText \<notin> set cleanup" "Click ConfirmContinue \<notin> set cleanup"
    using c(2) cleanup_event_excludes by (auto simp: list_all_iff)
  ultimately show ?thesis
    using c un ce by (auto simp: terminal_state_def unchanged_def initial_def)
qed

lemma solveCaptcha_zero_captcha:
  assumes "fails env = (\<lambda>_. None)" "captchaImg env 1 = None"
  shows "solveCaptcha env s =
           (Inr (), s\<lparr>trace := trace s @ [QueryCaptchaImg, GetPageContent,
                                             WriteFile NoCaptchaHtml (pageContent env)],
                      files := (files s)(NoCaptchaHtml \<mapsto> pageContent env)\<rparr>)"
  using assms
  by (simp add: solveCaptcha_def captchaLoop_no_image_ok maxCaptchaTries_def andThen_def ok_def)

lemma afterCaptcha_not_yet:
  assumes "js_includes not_yet_marker (bodyText env)" "fails env (length (trace s)) = None"
  shows "afterCaptcha env persisted current s =
           (Inr (),
            s\<lparr>trace := trace s @ [GetBodyText],
              infoMessage := Some (NotYetMsg
                (case regex_exec eligible_rx (bodyText env) of
                   None \<Rightarrow> unknown_str
                 | Some m \<Rightarrow> if formatChineseDate (concat (take 6 m)) = [] then unknown_str
                             else formatChineseDate (concat (take 6 m)))
                (if current = [] then unknown_str else current)
                (clock env (Suc (length (trace s)))))\<rparr>)"
  using assms
  by (simp add: afterCaptcha_def reportNotYet_def run_simps setInfoMessage_def
      split: option.splits)

lemma afterCaptcha_renew:
  assumes "\<not> js_includes not_yet_marker (bodyText env)" "fails env = (\<lambda>_. None)"
  shows "afterCaptcha env persisted current s =
           (let new = formatChineseDate (newExpireDateRaw env);
                now = clock env (length (trace s @ confirm_trace))
            in case classifyOutcome persisted new of
                 Success \<Rightarrow>
                   (Inr (),
                    s\<lparr>trace := trace s @ confirm_trace @ [WriteFile ExpireTxt new],
                      infoMessage := Some (SuccessMsg new
                        (getNextRenewAvailableDate (fixed_zone (localTZA env)) new) now),
                      files := (files s)(ExpireTxt \<mapsto> new)\<rparr>)
               | Unchanged \<Rightarrow>
                   (Inr (), s\<lparr>trace := trace s @ confirm_trace,
                              infoMessage := Some (FailMsg new now)\<rparr>)
               | FatalError \<Rightarrow>
                   (Inl ExpireDateNotFound, s\<lparr>trace := trace s @ confirm_trace\<rparr>))"
  using assms
  by (simp add: afterCaptcha_def confirmAndVerify_def confirm_trace_def run_simps
      setInfoMessage_def throw_def Let_def split: outcome.splits)

lemma finallyBlock_nofail:
  assumes "fails env = (\<lambda>_. None)"
  shows "finallyBlock env s = (Inr (), s\<lparr>trace := trace s @ cleanup_trace env s\<rparr>)"
  using assms
  by (simp add: finallyBlock_def uploadToWebDAV_def sendTelegramMessage_def cleanup_trace_def
      run_simps ok_def emit_def split: option.splits)

lemma loop_trace_events: "loop_trace n evs \<Longrightarrow> list_all loop_event evs"
  by (simp add: loop_trace_def)

text \<open>
  Where \<open>expire.txt\<close> is written: the run changes the file only in the branch of line
  309, in which the classifier decided for a success, and then the file holds the string
  the classifier was given; otherwise the file is as it was. A file that exists at the
  start exists at the end.
\<close>

lemma expire_file_frame:
  "(terminal_state (snd (script env (initial fs))) \<noteq> Some Terminal_Success \<longrightarrow>
      files (snd (script env (initial fs))) ExpireTxt = fs ExpireTxt)
   \<and> (files (snd (script env (initial fs))) ExpireTxt \<noteq> fs ExpireTxt \<longrightarrow>
        (\<exists>c n t. files (snd (script env (initial fs))) ExpireTxt = Some c
           \<and> infoMessage (snd (script env (initial fs))) = Some (SuccessMsg c n t)
           \<and> classifyOutcome (persistedDate fs) c = Success))
   \<and> (\<forall>c. WriteFile ExpireTxt c \<in> set (trace (snd (script env (initial fs)))) \<longrightarrow>
        classifyOutcome (persistedDate fs) c = Success
          \<and> (\<exists>n t. infoMessage (snd (script env (initial fs))) = Some (SuccessMsg c n t)))
   \<and> (fs ExpireTxt \<noteq> None \<longrightarrow> files (snd (script env (initial fs))) ExpireTxt \<noteq> None)"
proof (rule script_run [of env fs])
  fix pre loop after cleanup
  let ?fin = "snd (script env (initial fs))"
  assume t: "trace ?fin = pre @ loop @ after @ Sleep 5000 # RecorderStop # cleanup"
    and a: "list_all pre_event pre" "loop_trace maxCaptchaTries loop"
      "list_all cleanup_event cleanup"
    and w: "\<And>c. WriteFile ExpireTxt c \<in> set after \<Longrightarrow>
       classifyOutcome (persistedDate fs) c = Success
         \<and> (\<exists>n t. infoMessage ?fin = Some (SuccessMsg c n t))"
    and f: "files ?fin ExpireTxt = fs ExpireTxt
       \<or> scriptErrorMessage ?fin = None
           \<and> (\<exists>c n t. files ?fin ExpireTxt = Some c
                 \<and> classifyOutcome (persistedDate fs) c = Success
                 \<and> infoMessage ?fin = Some (SuccessMsg c n t))"
    and d: "fs ExpireTxt \<noteq> None \<Longrightarrow> files ?fin ExpireTxt \<noteq> None"
  note l = loop_trace_events [OF a(2)]
  have 1: "terminal_state ?fin \<noteq> Some Terminal_Success \<longrightarrow> files ?fin ExpireTxt = fs ExpireTxt"
    using f by (auto simp: terminal_state_def)
  have 2: "files ?fin ExpireTxt \<noteq> fs ExpireTxt \<longrightarrow>
        (\<exists>c n t. files ?fin ExpireTxt = Some c \<and> infoMessage ?fin = Some (SuccessMsg c n t)
           \<and> classifyOutcome (persistedDate fs) c = Success)"
    using f by auto
  have 3: "\<forall>c. WriteFile ExpireTxt c \<in> set (trace ?fin) \<longrightarrow>
        classifyOutcome (persistedDate fs) c = Success
          \<and> (\<exists>n t. infoMessage ?fin = Some (SuccessMsg c n t))"
  proof (intro allI impI)
    fix c assume "WriteFile ExpireTxt c \<in> set (trace ?fin)"
    moreover have "WriteFile ExpireTxt c \<notin> set pre" "WriteFile ExpireTxt c \<notin> set loop"
        "WriteFile ExpireTxt c \<notin> set cleanup"
      using a(1) l a(3) pre_event_excludes loop_event_excludes cleanup_event_excludes
      by (auto simp: list_all_iff)
    ultimately have "WriteFile ExpireTxt c \<in> set after" by (auto simp: t)
    then show "classifyOutcome (persistedDate fs) c = Success
          \<and> (\<exists>n t. infoMessage ?fin = Some (SuccessMsg c n t))" by (rule w)
  qed
  from 1 2 3 d show ?thesis by blast
qed

text \<open>
  Claim C4. The loop has the constant bound 3. In every run there are at most 3 probes for
  the image, at most 3 requests to the recognition service and at most 3 submissions. When
  each of the three attempts is unsuccessful (an image is present, and the request fails,
  the answer is shorter than 4, or no navigation follows the submission), the \<open>try\<close> block
  ends with an error: the run ends in the terminal state of an error without reading the
  page text, without the confirmation click of line 284 and without touching
  \<open>expire.txt\<close>; when in
  addition no call throws, the error is that of line 267.
\<close>

theorem captcha_attempts_bounded:
  "maxCaptchaTries = 3
   \<and> length (filter is_query (trace (snd (script env (initial fs))))) \<le> 3
   \<and> length (filter is_fetch (trace (snd (script env (initial fs))))) \<le> 3
   \<and> length (filter is_submit (trace (snd (script env (initial fs))))) \<le> 3
   \<and> (attempt_unsuccessful env 1 \<and> attempt_unsuccessful env 2 \<and> attempt_unsuccessful env 3 \<longrightarrow>
        terminal_state (snd (script env (initial fs))) = Some Terminal_Error
          \<and> infoMessage (snd (script env (initial fs))) = None
          \<and> GetBodyText \<notin> set (trace (snd (script env (initial fs))))
          \<and> Click ConfirmContinue \<notin> set (trace (snd (script env (initial fs))))
          \<and> files (snd (script env (initial fs))) ExpireTxt = fs ExpireTxt
          \<and> (fails env = (\<lambda>_. None) \<longrightarrow>
               (\<exists>t. scriptErrorMessage (snd (script env (initial fs)))
                       = Some (ErrorMsg CaptchaUnsolved t))))"
proof (rule script_run [of env fs])
  fix pre loop after cleanup
  let ?fin = "snd (script env (initial fs))"
  assume t: "trace ?fin = pre @ loop @ after @ Sleep 5000 # RecorderStop # cleanup"
    and a: "list_all pre_event pre" "loop_trace maxCaptchaTries loop" "list_all post_event after"
      "list_all cleanup_event cleanup"
  have q: "filter is_query pre = []" "filter is_query after = []" "filter is_query cleanup = []"
    and f: "filter is_fetch pre = []" "filter is_fetch after = []" "filter is_fetch cleanup = []"
    and u: "filter is_submit pre = []" "filter is_submit after = []"
      "filter is_submit cleanup = []"
    using a(1,3,4) pre_event_excludes post_event_excludes cleanup_event_excludes
    by (auto simp: filter_empty_conv list_all_iff)
  have "length (filter is_query (trace ?fin)) \<le> 3" "length (filter is_fetch (trace ?fin)) \<le> 3"
    "length (filter is_submit (trace ?fin)) \<le> 3"
    using a(2) by (simp_all add: t q f u loop_trace_def maxCaptchaTries_def)
  with script_exhausted [of env fs] show ?thesis
    by (simp add: maxCaptchaTries_def)
qed

lemma perform_recognized_update: "perform (env\<lparr>recognized := x\<rparr>) = perform env"
  by (simp add: perform_def fun_eq_iff)

lemma writeFileSync_recognized_update:
  "writeFileSync (env\<lparr>recognized := x\<rparr>) = writeFileSync env"
  by (simp add: writeFileSync_def fun_eq_iff perform_recognized_update)

lemma captchaAttempt_short_code_eq:
  assumes "recognized env a = Some code" "length code < 4"
  shows "captchaAttempt (env\<lparr>recognized := (recognized env)(a := None)\<rparr>) k s
           = captchaAttempt env k s"
proof (cases "k = a")
  case True
  with assms show ?thesis
    by (auto simp: captchaAttempt_def perform_recognized_update writeFileSync_recognized_update
        split: option.splits)
next
  case False
  then show ?thesis
    by (simp add: captchaAttempt_def perform_recognized_update writeFileSync_recognized_update
        cong: option.case_cong if_cong)
qed

lemma captchaLoop_cong:
  assumes "\<And>k s. captchaAttempt env' k s = captchaAttempt env k s"
  shows "captchaLoop env' a s = captchaLoop env a s"
  using assms
proof (induction env a s rule: captchaLoop.induct)
  case (1 env a s)
  note eq = "1.prems"
  show ?case
  proof (cases "a \<le> maxCaptchaTries")
    case False
    then show ?thesis by (simp add: captchaLoop_done)
  next
    case True
    obtain r s' where at: "captchaAttempt env a s = (r, s')" by (cases "captchaAttempt env a s")
    then have at': "captchaAttempt env' a s = (r, s')" by (simp add: eq)
    show ?thesis
    proof (cases "r = Inr Continue")
      case False
      with True show ?thesis
        by (simp add: captchaLoop_step at at' split: sum.splits loop_step.splits)
    next
      case Continue: True
      have "captchaLoop env' (a + 1) s' = captchaLoop env (a + 1) s'"
        by (rule "1.IH" [OF True at [symmetric] Continue refl eq])
      with True Continue show ?thesis by (simp add: captchaLoop_step at at')
    qed
  qed
qed

lemma captchaAttempt_short_code_events:
  assumes "recognized env a = Some code" "length code < 4"
  shows "\<exists>evs. trace (snd (captchaAttempt env a s)) = trace s @ evs
           \<and> (\<forall>c. Fill CaptchaInput c \<notin> set evs) \<and> SubmitCaptcha \<notin> set evs"
  using assms unfolding captchaAttempt_def
  by (auto simp: andThen_def ok_def emit_def perform_def writeFileSync_def split: option.splits)

lemma captchaAttempt_short_code_continue:
  assumes "recognized env a = Some code" "length code < 4" "captchaImg env a \<noteq> None"
  shows "fst (captchaAttempt env a s) \<noteq> Inr Break_solved"
  using assms by (intro captchaAttempt_unsuccessful) (simp add: attempt_unsuccessful_def)

lemma captchaAttempt_short_code_nofail:
  assumes "captchaImg env a = Some src" "recognized env a = Some code" "length code < 4"
    and "fails env = (\<lambda>_. None)"
  shows "captchaAttempt env a s
          = (Inr Continue,
             s\<lparr>trace := trace s @ [QueryCaptchaImg, ReadImgSrc, FetchRecognize src,
                                    Screenshot a]\<rparr>)"
  using assms by (auto simp: captchaAttempt_def run_simps ok_def)

text \<open>
  Claim C5. In every run a code is typed into the CAPTCHA input only when it has at least 4
  characters. In an attempt whose answer is shorter than 4 (the empty answer included)
  nothing is typed and nothing is submitted, and the attempt does not end the loop as
  solved when an image is present. Such an answer is treated exactly as a failed request to
  the recognition service: the loop behaves the same from every attempt and state when the
  short answer is replaced by a failed request. With an image present and no call throwing,
  that attempt consists of the probe, the reading of the image, the request and the
  screenshot, and continues with the next attempt.
\<close>

theorem short_code_never_submitted:
  "(\<forall>c. Fill CaptchaInput c \<in> set (trace (snd (script env (initial fs)))) \<longrightarrow> 4 \<le> length c)
   \<and> (recognized env a = Some code \<and> length code < 4 \<longrightarrow>
        captchaAttempt (env\<lparr>recognized := (recognized env)(a := None)\<rparr>) k s
          = captchaAttempt env k s
        \<and> captchaLoop (env\<lparr>recognized := (recognized env)(a := None)\<rparr>) k s
          = captchaLoop env k s
        \<and> (\<exists>evs. trace (snd (captchaAttempt env a s)) = trace s @ evs
              \<and> (\<forall>c. Fill CaptchaInput c \<notin> set evs) \<and> SubmitCaptcha \<notin> set evs)
        \<and> (captchaImg env a \<noteq> None \<longrightarrow> fst (captchaAttempt env a s) \<noteq> Inr Break_solved))
   \<and> (captchaImg env a = Some src \<and> recognized env a = Some code \<and> length code < 4
        \<and> fails env = (\<lambda>_. None) \<longrightarrow>
        captchaAttempt env a s
          = (Inr Continue,
             s\<lparr>trace := trace s @ [QueryCaptchaImg, ReadImgSrc, FetchRecognize src,
                                    Screenshot a]\<rparr>))"
proof (intro conjI allI impI)
  fix c
  assume c: "Fill CaptchaInput c \<in> set (trace (snd (script env (initial fs))))"
  show "4 \<le> length c"
  proof (rule script_run [of env fs])
    fix pre loop after cleanup
    assume t: "trace (snd (script env (initial fs)))
        = pre @ loop @ after @ Sleep 5000 # RecorderStop # cleanup"
      and a: "list_all pre_event pre" "loop_trace maxCaptchaTries loop"
        "list_all post_event after" "list_all cleanup_event cleanup"
    have "Fill CaptchaInput c \<notin> set pre" "Fill CaptchaInput c \<notin> set after"
        "Fill CaptchaInput c \<notin> set cleanup"
      using a(1,3,4) pre_event_excludes post_event_excludes cleanup_event_excludes
      by (auto simp: list_all_iff)
    with c t have "Fill CaptchaInput c \<in> set loop" by auto
    with loop_trace_events [OF a(2)] have "loop_event (Fill CaptchaInput c)"
      by (auto simp: list_all_iff)
    then show ?thesis by simp
  qed
next
  assume h: "recognized env a = Some code \<and> length code < 4"
  then have r: "recognized env a = Some code" and l: "length code < 4" by simp_all
  show "captchaAttempt (env\<lparr>recognized := (recognized env)(a := None)\<rparr>) k s
          = captchaAttempt env k s"
    using r l by (rule captchaAttempt_short_code_eq)
  show "captchaLoop (env\<lparr>recognized := (recognized env)(a := None)\<rparr>) k s
          = captchaLoop env k s"
    by (rule captchaLoop_cong) (rule captchaAttempt_short_code_eq [OF r l])
  show "\<exists>evs. trace (snd (captchaAttempt env a s)) = trace s @ evs
              \<and> (\<forall>c. Fill CaptchaInput c \<notin> set evs) \<and> SubmitCaptcha \<notin> set evs"
    using r l by (rule captchaAttempt_short_code_events)
  show "fst (captchaAttempt env a s) \<noteq> Inr Break_solved" if "captchaImg env a \<noteq> None"
    using r l that by (rule captchaAttempt_short_code_continue)
next
  assume "captchaImg env a = Some src \<and> recognized env a = Some code \<and> length code < 4
        \<and> fails env = (\<lambda>_. None)"
  then have "captchaImg env a = Some src" "recognized env a = Some code" "length code < 4"
    "fails env = (\<lambda>_. None)" by simp_all
  then show "captchaAttempt env a s
          = (Inr Continue,
             s\<lparr>trace := trace s @ [QueryCaptchaImg, ReadImgSrc, FetchRecognize src,
                                    Screenshot a]\<rparr>)"
    by (rule captchaAttempt_short_code_nofail)
qed

lemma scenario_strings:
  "date_2025_08_07 \<noteq> []" "date_2025_07_07 \<noteq> []"
  "date_2025_08_07 \<noteq> iso_2025_08_07" "date_2025_08_07 \<noteq> iso_2025_07_07"
  "date_2025_08_07 \<noteq> date_2025_07_07" "iso_2025_07_07 \<noteq> []"
  "4 \<le> length code_1234" "length code_123 < 4" "length code_1234 = 4"
  by (simp_all add: date_2025_08_07_def date_2025_07_07_def iso_2025_08_07_def
      iso_2025_07_07_def code_1234_def code_123_def)

lemma scenario_dates:
  "chinese_date 2025 7 7 = date_2025_07_07" "chinese_date 2025 8 6 = date_2025_08_06"
  "chinese_date 2025 8 7 = date_2025_08_07" "chinese_date 2025 9 6 = date_2025_09_06"
  by code_simp+

lemma formatChineseDate_nonempty: "formatChineseDate d \<noteq> []"
  by (simp add: formatChineseDate_def unknown_str_def Let_def split: option.splits)

lemma script_zero_captcha:
  assumes "fails env = (\<lambda>_. None)" "captchaImg env 1 = None"
    and "afterCaptcha env (persistedDate fs) (formatChineseDate (currentExpireDateRaw env))
           \<lparr>files = fs(NoCaptchaHtml \<mapsto> pageContent env),
            trace = opening_trace fs env
              @ [QueryCaptchaImg, GetPageContent, WriteFile NoCaptchaHtml (pageContent env)],
            infoMessage = None, scriptErrorMessage = None\<rparr> = (Inr (), s1)"
  shows "script env (initial fs) = (Inr (), s1\<lparr>trace := trace s1 @ cleanup_trace env s1\<rparr>)"
proof -
  have "tryBlock env (initial fs) = (Inr (), s1)"
    using assms by (simp add: tryBlock_nofail solveCaptcha_zero_captcha andThen_def)
  then show ?thesis
    using assms(1) by (simp add: script_def finallyBlock_nofail)
qed

lemma script_not_yet:
  fixes env fs
  defines "fin \<equiv> snd (script env (initial fs))"
  assumes "fails env = (\<lambda>_. None)" "captchaImg env 1 = None"
    and "js_includes not_yet_marker (bodyText env)"
  shows "fst (script env (initial fs)) = Inr ()
     \<and> trace fin = opening_trace fs env
         @ [QueryCaptchaImg, GetPageContent, WriteFile NoCaptchaHtml (pageContent env),
            GetBodyText]
         @ cleanup_trace env fin
     \<and> (\<exists>t. infoMessage fin = Some (NotYetMsg (eligibleDate (bodyText env))
                (formatChineseDate (currentExpireDateRaw env)) t))
     \<and> scriptErrorMessage fin = None
     \<and> files fin ExpireTxt = fs ExpireTxt"
proof -
  let ?s0 = "\<lparr>files = fs(NoCaptchaHtml \<mapsto> pageContent env),
            trace = opening_trace fs env
              @ [QueryCaptchaImg, GetPageContent, WriteFile NoCaptchaHtml (pageContent env)],
            infoMessage = None, scriptErrorMessage = None\<rparr>"
  let ?m = "NotYetMsg (eligibleDate (bodyText env))
                (formatChineseDate (currentExpireDateRaw env))
                (clock env (Suc (length (trace ?s0))))"
  let ?s1 = "?s0\<lparr>trace := trace ?s0 @ [GetBodyText], infoMessage := Some ?m\<rparr>"
  have f: "fails env (length (trace ?s0)) = None" using assms(2) by simp
  have "afterCaptcha env (persistedDate fs) (formatChineseDate (currentExpireDateRaw env)) ?s0
      = (Inr (), ?s1)"
    unfolding afterCaptcha_not_yet [OF assms(4) f]
    by (simp add: eligibleDate_def Let_def formatChineseDate_nonempty split: option.splits)
  from script_zero_captcha [OF assms(2,3) this]
  have "script env (initial fs) = (Inr (), ?s1\<lparr>trace := trace ?s1 @ cleanup_trace env ?s1\<rparr>)" .
  then show ?thesis by (simp add: fin_def cleanup_trace_def)
qed

lemma script_renewed:
  fixes env fs
  defines "fin \<equiv> snd (script env (initial fs))"
    and "new \<equiv> formatChineseDate (newExpireDateRaw env)"
  assumes "fails env = (\<lambda>_. None)" "captchaImg env 1 = None"
    and "\<not> js_includes not_yet_marker (bodyText env)"
    and "classifyOutcome (persistedDate fs) new = Success"
  shows "fst (script env (initial fs)) = Inr ()
     \<and> trace fin = opening_trace fs env
         @ [QueryCaptchaImg, GetPageContent, WriteFile NoCaptchaHtml (pageContent env)]
         @ confirm_trace @ [WriteFile ExpireTxt new] @ cleanup_trace env fin
     \<and> (\<exists>t. infoMessage fin
           = Some (SuccessMsg new (getNextRenewAvailableDate (fixed_zone (localTZA env)) new) t))
     \<and> scriptErrorMessage fin = None
     \<and> files fin ExpireTxt = Some new"
proof -
  let ?s0 = "\<lparr>files = fs(NoCaptchaHtml \<mapsto> pageContent env),
            trace = opening_trace fs env
              @ [QueryCaptchaImg, GetPageContent, WriteFile NoCaptchaHtml (pageContent env)],
            infoMessage = None, scriptErrorMessage = None\<rparr>"
  let ?s1 = "?s0\<lparr>trace := trace ?s0 @ confirm_trace @ [WriteFile ExpireTxt new],
      infoMessage := Some (SuccessMsg new (getNextRenewAvailableDate (fixed_zone (localTZA env)) new)
        (clock env (length (trace ?s0 @ confirm_trace)))),
      files := (files ?s0)(ExpireTxt \<mapsto> new)\<rparr>"
  have "afterCaptcha env (persistedDate fs) (formatChineseDate (currentExpireDateRaw env)) ?s0
      = (Inr (), ?s1)"
    unfolding afterCaptcha_renew [OF assms(5,3)] using assms(6) by (simp add: new_def Let_def)
  from script_zero_captcha [OF assms(3,4) this]
  have "script env (initial fs) = (Inr (), ?s1\<lparr>trace := trace ?s1 @ cleanup_trace env ?s1\<rparr>)" .
  then show ?thesis by (simp add: fin_def cleanup_trace_def)
qed

lemma format_2025_08_07:
  "formatChineseDate date_2025_08_07 = date_2025_08_07"
  by code_simp

lemma format_iso_2025_07_07:
  "formatChineseDate (trim iso_2025_07_07) = iso_2025_07_07"
  by code_simp

lemma next_renew_2025_08_07:
  "getNextRenewAvailableDate (fixed_zone z) date_2025_08_07 = date_2025_08_06"
proof -
  have "getNextRenewAvailableDate (fixed_zone z) (chinese_date 2025 8 7) = chinese_date 2025 8 6"
    by (rule previous_day_of_date_string)
       (simp_all add: valid_date_def days_in_month_def prev_day_def
          local_midnight_exists_fixed)
  then show ?thesis by (simp only: scenario_dates)
qed

text \<open>
  Claim C3 fails as it is stated: the normal form of a date is the zero-padded form in the
  notation of the page, with the year, month and day signs, not the form with hyphens.
\<close>

theorem normalized_date_is_not_iso_counterexample:
  "formatChineseDate date_2025_08_07 \<noteq> iso_2025_08_07"
  by (simp add: format_2025_08_07 scenario_strings)

text \<open>
  Claim C3, amended. When nothing throws, no CAPTCHA is shown, the page does not carry the
  marker, the persisted date is \<open>2025-07-07\<close> and the date read after the renewal is that
  of 7 August 2025 in the notation of the page, then the normal form of the date read is the
  same zero-padded string, the outcome is a successful renewal, and the run ends with
  \<open>expire.txt\<close> holding that string and with the message of a successful renewal,
  which names 6 August 2025 as the next day on which renewal is possible.
\<close>

theorem renewal_scenario_updates_file:
  "fails env = (\<lambda>_. None) \<and> captchaImg env 1 = None
     \<and> \<not> js_includes not_yet_marker (bodyText env)
     \<and> newExpireDateRaw env = date_2025_08_07
     \<and> fs ExpireTxt = Some iso_2025_07_07 \<longrightarrow>
   formatChineseDate (newExpireDateRaw env) = date_2025_08_07
   \<and> classifyOutcome (persistedDate fs) (formatChineseDate (newExpireDateRaw env)) = Success
   \<and> terminal_state (snd (script env (initial fs))) = Some Terminal_Success
   \<and> files (snd (script env (initial fs))) ExpireTxt = Some date_2025_08_07
   \<and> WriteFile ExpireTxt date_2025_08_07 \<in> set (trace (snd (script env (initial fs))))
   \<and> (\<exists>t. infoMessage (snd (script env (initial fs)))
          = Some (SuccessMsg date_2025_08_07 date_2025_08_06 t))"
proof
  assume a: "fails env = (\<lambda>_. None) \<and> captchaImg env 1 = None
     \<and> \<not> js_includes not_yet_marker (bodyText env)
     \<and> newExpireDateRaw env = date_2025_08_07
     \<and> fs ExpireTxt = Some iso_2025_07_07"
  then have new: "formatChineseDate (newExpireDateRaw env) = date_2025_08_07"
    by (simp add: format_2025_08_07)
  have pd: "formatChineseDate (persistedDate fs) = iso_2025_07_07"
    using a by (simp add: persistedDate_def format_iso_2025_07_07)
  have cl: "classifyOutcome (persistedDate fs) (formatChineseDate (newExpireDateRaw env)) = Success"
    by (simp add: classifyOutcome_def new pd scenario_strings)
  from a cl script_renewed [of env fs]
  have "trace (snd (script env (initial fs))) = opening_trace fs env
         @ [QueryCaptchaImg, GetPageContent, WriteFile NoCaptchaHtml (pageContent env)]
         @ confirm_trace @ [WriteFile ExpireTxt (formatChineseDate (newExpireDateRaw env))]
         @ cleanup_trace env (snd (script env (initial fs)))"
    and "\<exists>t. infoMessage (snd (script env (initial fs)))
           = Some (SuccessMsg (formatChineseDate (newExpireDateRaw env))
               (getNextRenewAvailableDate (fixed_zone (localTZA env))
                 (formatChineseDate (newExpireDateRaw env))) t)"
    and "scriptErrorMessage (snd (script env (initial fs))) = None"
    and "files (snd (script env (initial fs))) ExpireTxt
           = Some (formatChineseDate (newExpireDateRaw env))"
    by simp_all
  with new cl show "formatChineseDate (newExpireDateRaw env) = date_2025_08_07
   \<and> classifyOutcome (persistedDate fs) (formatChineseDate (newExpireDateRaw env)) = Success
   \<and> terminal_state (snd (script env (initial fs))) = Some Terminal_Success
   \<and> files (snd (script env (initial fs))) ExpireTxt = Some date_2025_08_07
   \<and> WriteFile ExpireTxt date_2025_08_07 \<in> set (trace (snd (script env (initial fs))))
   \<and> (\<exists>t. infoMessage (snd (script env (initial fs)))
          = Some (SuccessMsg date_2025_08_07 date_2025_08_06 t))"
    by (auto simp: terminal_state_def next_renew_2025_08_07)
qed

text \<open>The scenario, in the environment without failures and without a CAPTCHA.\<close>

theorem renewal_scenario_updates_file_witness:
  "fails plain_env = (\<lambda>_. None) \<and> captchaImg plain_env 1 = None
     \<and> \<not> js_includes not_yet_marker (bodyText plain_env)
     \<and> newExpireDateRaw plain_env = date_2025_08_07
     \<and> (only_expire_txt iso_2025_07_07) ExpireTxt = Some iso_2025_07_07
     \<and> terminal_state (snd (script plain_env (initial (only_expire_txt iso_2025_07_07))))
         = Some Terminal_Success
     \<and> files (snd (script plain_env (initial (only_expire_txt iso_2025_07_07)))) ExpireTxt
         = Some date_2025_08_07
     \<and> (\<exists>t. infoMessage (snd (script plain_env (initial (only_expire_txt iso_2025_07_07))))
            = Some (SuccessMsg date_2025_08_07 date_2025_08_06 t))"
proof -
  have h: "fails plain_env = (\<lambda>_. None) \<and> captchaImg plain_env 1 = None
     \<and> \<not> js_includes not_yet_marker (bodyText plain_env)
     \<and> newExpireDateRaw plain_env = date_2025_08_07
     \<and> (only_expire_txt iso_2025_07_07) ExpireTxt = Some iso_2025_07_07"
    by (simp add: plain_env_def not_yet_marker_def only_expire_txt_def)
  note r = mp [OF renewal_scenario_updates_file
      [of plain_env "only_expire_txt iso_2025_07_07"] h]
  from h r show ?thesis by (intro conjI) (elim conjE, assumption)+
qed

lemma script_after_loop:
  assumes "fails env = (\<lambda>_. None)"
    and "solveCaptcha env \<lparr>files = fs, trace = opening_trace fs env, infoMessage = None,
           scriptErrorMessage = None\<rparr> = (Inr (), s0)"
    and "afterCaptcha env (persistedDate fs) (formatChineseDate (currentExpireDateRaw env)) s0
           = (Inr (), s1)"
  shows "script env (initial fs) = (Inr (), s1\<lparr>trace := trace s1 @ cleanup_trace env s1\<rparr>)"
proof -
  have "tryBlock env (initial fs) = (Inr (), s1)"
    using assms by (simp add: tryBlock_nofail andThen_def)
  then show ?thesis
    using assms(1) by (simp add: script_def finallyBlock_nofail)
qed

lemma captchaAttempt_solved:
  assumes "fails env = (\<lambda>_. None)" "captchaImg env a = Some src" "recognized env a = Some code"
    and "4 \<le> length code" "navigated env a"
  shows "captchaAttempt env a s
          = (Inr Break_solved,
             s\<lparr>trace := trace s @ [QueryCaptchaImg, ReadImgSrc, FetchRecognize src,
                                    Fill CaptchaInput code, EvaluateAutoSubmit, SubmitCaptcha]\<rparr>)"
  using assms by (auto simp: captchaAttempt_def run_simps ok_def)

lemma solveCaptcha_solved_first:
  assumes "fails env = (\<lambda>_. None)" "captchaImg env 1 = Some src" "recognized env 1 = Some code"
    and "4 \<le> length code" "navigated env 1"
  shows "solveCaptcha env s
          = (Inr (),
             s\<lparr>trace := trace s @ [QueryCaptchaImg, ReadImgSrc, FetchRecognize src,
                                    Fill CaptchaInput code, EvaluateAutoSubmit, SubmitCaptcha]\<rparr>)"
  using assms
  by (simp add: solveCaptcha_def captchaLoop_step captchaAttempt_solved maxCaptchaTries_def
      andThen_def ok_def)

lemma script_not_yet_after_captcha:
  fixes env fs
  defines "fin \<equiv> snd (script env (initial fs))"
  assumes "fails env = (\<lambda>_. None)" "captchaImg env 1 = Some src" "recognized env 1 = Some code"
    and "4 \<le> length code" "navigated env 1"
    and "js_includes not_yet_marker (bodyText env)"
  shows "fst (script env (initial fs)) = Inr ()
     \<and> trace fin = opening_trace fs env
         @ [QueryCaptchaImg, ReadImgSrc, FetchRecognize src, Fill CaptchaInput code,
            EvaluateAutoSubmit, SubmitCaptcha, GetBodyText]
         @ cleanup_trace env fin
     \<and> (\<exists>t. infoMessage fin = Some (NotYetMsg (eligibleDate (bodyText env))
                (formatChineseDate (currentExpireDateRaw env)) t))
     \<and> scriptErrorMessage fin = None
     \<and> files fin ExpireTxt = fs ExpireTxt"
proof -
  let ?o = "\<lparr>files = fs, trace = opening_trace fs env, infoMessage = None,
            scriptErrorMessage = None\<rparr>"
  let ?s0 = "?o\<lparr>trace := trace ?o @ [QueryCaptchaImg, ReadImgSrc, FetchRecognize src,
                 Fill CaptchaInput code, EvaluateAutoSubmit, SubmitCaptcha]\<rparr>"
  let ?m = "NotYetMsg (eligibleDate (bodyText env))
                (formatChineseDate (currentExpireDateRaw env))
                (clock env (Suc (length (trace ?s0))))"
  let ?s1 = "?s0\<lparr>trace := trace ?s0 @ [GetBodyText], infoMessage := Some ?m\<rparr>"
  have f: "fails env (length (trace ?s0)) = None" using assms(2) by simp
  have a: "afterCaptcha env (persistedDate fs) (formatChineseDate (currentExpireDateRaw env)) ?s0
      = (Inr (), ?s1)"
    unfolding afterCaptcha_not_yet [OF assms(7) f]
    by (simp add: eligibleDate_def Let_def formatChineseDate_nonempty split: option.splits)
  note l = solveCaptcha_solved_first [OF assms(2-6), of ?o]
  from script_after_loop [OF assms(2) l a]
  have "script env (initial fs) = (Inr (), ?s1\<lparr>trace := trace ?s1 @ cleanup_trace env ?s1\<rparr>)" .
  then show ?thesis by (simp add: fin_def cleanup_trace_def)
qed

lemma marker_in_too_early: "js_includes not_yet_marker (bodyText too_early_env)"
  by (simp add: too_early_env_def not_yet_marker_def)

lemma eligible_in_too_early: "eligibleDate (bodyText too_early_env) = date_2025_09_06"
  by code_simp

lemma marker_in_captcha_env: "js_includes not_yet_marker (bodyText captcha_env)"
  by (simp add: captcha_env_def not_yet_marker_def)

lemma format_2025_7_7:
  "formatChineseDate (currentExpireDateRaw plain_env) = date_2025_07_07"
  by code_simp

text \<open>
  Claim C2 fails as it is stated: the CAPTCHA loop runs before the page text is read. In
  the environment in which the page shows a challenge image, the service answers with a
  code of four characters, the submission navigates, and the page then carries the marker,
  the run ends as not yet eligible although the image was sent to the recognition service,
  the code was typed in and the form was submitted.
\<close>

theorem captcha_precedes_marker_check_counterexample:
  "js_includes not_yet_marker (bodyText captcha_env)
   \<and> terminal_state (snd (script captcha_env (initial (\<lambda>_. None)))) = Some Terminal_NotYetEligible
   \<and> trace (snd (script captcha_env (initial (\<lambda>_. None))))
       = opening_trace (\<lambda>_. None) captcha_env
         @ [QueryCaptchaImg, ReadImgSrc, FetchRecognize [0x41],
            Fill CaptchaInput code_1234, EvaluateAutoSubmit, SubmitCaptcha,
            GetBodyText]
         @ cleanup_trace captcha_env (snd (script captcha_env (initial (\<lambda>_. None))))"
proof -
  have "fails captcha_env = (\<lambda>_. None)" "captchaImg captcha_env 1 = Some [0x41]"
    "recognized captcha_env 1 = Some code_1234"
    "4 \<le> length code_1234" "navigated captcha_env 1"
    by (simp_all add: captcha_env_def plain_env_def scenario_strings)
  from script_not_yet_after_captcha [OF this marker_in_captcha_env, of "\<lambda>_. None"]
  show ?thesis by (auto simp: marker_in_captcha_env terminal_state_def)
qed

text \<open>
  The date read before the renewal plays no part on a page without the marker: the run is
  the same whatever that date is.
\<close>

lemma perform_current_update: "perform (env\<lparr>currentExpireDateRaw := x\<rparr>) = perform env"
  by (simp add: perform_def fun_eq_iff)

lemma writeFileSync_current_update:
  "writeFileSync (env\<lparr>currentExpireDateRaw := x\<rparr>) = writeFileSync env"
  by (simp add: writeFileSync_def fun_eq_iff perform_current_update)

lemma getBeijingTimeString_current_update:
  "getBeijingTimeString (env\<lparr>currentExpireDateRaw := x\<rparr>) = getBeijingTimeString env"
  by (simp add: getBeijingTimeString_def fun_eq_iff)

lemmas current_update = perform_current_update writeFileSync_current_update
  getBeijingTimeString_current_update

lemma solveCaptcha_current_update:
  "solveCaptcha (env\<lparr>currentExpireDateRaw := x\<rparr>) = solveCaptcha env"
proof -
  have "captchaLoop (env\<lparr>currentExpireDateRaw := x\<rparr>) 1 s = captchaLoop env 1 s" for s
    by (rule captchaLoop_cong)
       (simp add: captchaAttempt_def current_update cong: option.case_cong if_cong)
  then show ?thesis by (simp add: solveCaptcha_def fun_eq_iff andThen_def)
qed

lemma confirmAndVerify_current_update:
  "confirmAndVerify (env\<lparr>currentExpireDateRaw := x\<rparr>) = confirmAndVerify env"
  by (simp add: confirmAndVerify_def current_update fun_eq_iff cong: outcome.case_cong)

lemma afterCaptcha_ignores_current:
  assumes "\<not> js_includes not_yet_marker (bodyText env)"
  shows "afterCaptcha (env\<lparr>currentExpireDateRaw := x\<rparr>) persisted current'
           = afterCaptcha env persisted current"
  using assms by (simp add: afterCaptcha_def current_update confirmAndVerify_current_update)

lemma tryBlock_ignores_current:
  assumes "\<not> js_includes not_yet_marker (bodyText env)"
  shows "tryBlock (env\<lparr>currentExpireDateRaw := x\<rparr>) = tryBlock env"
proof -
  have a: "afterCaptcha (env\<lparr>currentExpireDateRaw := x\<rparr>) p (formatChineseDate x)
      = afterCaptcha env p (formatChineseDate (currentExpireDateRaw env))" for p
    by (rule afterCaptcha_ignores_current [OF assms])
  have r: "readLastExpireDate (env\<lparr>currentExpireDateRaw := x\<rparr>) = readLastExpireDate env"
    by (simp add: readLastExpireDate_def fun_eq_iff current_update cong: option.case_cong)
  show ?thesis
    by (simp add: tryBlock_def a r solveCaptcha_current_update loginAndOpenContract_def
        initiateRenewal_def current_update)
qed

lemma finallyBlock_current_update:
  "finallyBlock (env\<lparr>currentExpireDateRaw := x\<rparr>) = finallyBlock env"
  by (simp add: finallyBlock_def uploadToWebDAV_def sendTelegramMessage_def current_update
      fun_eq_iff cong: option.case_cong if_cong)

lemma script_ignores_current:
  assumes "\<not> js_includes not_yet_marker (bodyText env)"
  shows "script (env\<lparr>currentExpireDateRaw := x\<rparr>) s = script env s"
proof -
  have "catchBlock (env\<lparr>currentExpireDateRaw := x\<rparr>) = catchBlock env"
    by (simp add: catchBlock_def getBeijingTimeString_current_update fun_eq_iff)
  then show ?thesis
    by (simp add: script_def tryBlock_ignores_current [OF assms] finallyBlock_current_update
        split: prod.splits sum.splits)
qed

lemma script_unchanged:
  fixes env fs
  defines "fin \<equiv> snd (script env (initial fs))"
    and "new \<equiv> formatChineseDate (newExpireDateRaw env)"
  assumes "fails env = (\<lambda>_. None)" "captchaImg env 1 = None"
    and "\<not> js_includes not_yet_marker (bodyText env)"
    and "classifyOutcome (persistedDate fs) new = Unchanged"
  shows "fst (script env (initial fs)) = Inr ()
     \<and> trace fin = opening_trace fs env
         @ [QueryCaptchaImg, GetPageContent, WriteFile NoCaptchaHtml (pageContent env)]
         @ confirm_trace @ cleanup_trace env fin
     \<and> (\<exists>t. infoMessage fin = Some (FailMsg new t))
     \<and> scriptErrorMessage fin = None
     \<and> files fin ExpireTxt = fs ExpireTxt"
proof -
  let ?s0 = "\<lparr>files = fs(NoCaptchaHtml \<mapsto> pageContent env),
            trace = opening_trace fs env
              @ [QueryCaptchaImg, GetPageContent, WriteFile NoCaptchaHtml (pageContent env)],
            infoMessage = None, scriptErrorMessage = None\<rparr>"
  let ?s1 = "?s0\<lparr>trace := trace ?s0 @ confirm_trace,
      infoMessage := Some (FailMsg new (clock env (length (trace ?s0 @ confirm_trace))))\<rparr>"
  have "afterCaptcha env (persistedDate fs) (formatChineseDate (currentExpireDateRaw env)) ?s0
      = (Inr (), ?s1)"
    unfolding afterCaptcha_renew [OF assms(5,3)] using assms(6) by (simp add: new_def Let_def)
  from script_zero_captcha [OF assms(3,4) this]
  have "script env (initial fs) = (Inr (), ?s1\<lparr>trace := trace ?s1 @ cleanup_trace env ?s1\<rparr>)" .
  then show ?thesis by (simp add: fin_def cleanup_trace_def)
qed

lemma classifyOutcome_never_fatal:
  "classifyOutcome persisted (formatChineseDate raw) \<noteq> FatalError"
  by (simp add: classifyOutcome_def formatChineseDate_nonempty)

lemma solveCaptcha_all_short:
  assumes "fails env = (\<lambda>_. None)" "captchaImg env = (\<lambda>_. Some src)"
    and "recognized env = (\<lambda>_. Some code)" "length code < 4"
  shows "solveCaptcha env s
          = (Inl CaptchaUnsolved,
             s\<lparr>trace := trace s
               @ [QueryCaptchaImg, ReadImgSrc, FetchRecognize src, Screenshot 1,
                  QueryCaptchaImg, ReadImgSrc, FetchRecognize src, Screenshot 2,
                  QueryCaptchaImg, ReadImgSrc, FetchRecognize src, Screenshot 3]\<rparr>)"
proof -
  have at: "captchaAttempt env a t
          = (Inr Continue,
             t\<lparr>trace := trace t @ [QueryCaptchaImg, ReadImgSrc, FetchRecognize src,
                                    Screenshot a]\<rparr>)" for a t
    using assms by (intro captchaAttempt_short_code_nofail) simp_all
  have "captchaLoop env 1 t = (Inr False, t\<lparr>trace := trace t
      @ [QueryCaptchaImg, ReadImgSrc, FetchRecognize src, Screenshot 1,
         QueryCaptchaImg, ReadImgSrc, FetchRecognize src, Screenshot 2,
         QueryCaptchaImg, ReadImgSrc, FetchRecognize src, Screenshot 3]\<rparr>)" for t
    by (simp add: captchaLoop_step captchaLoop_done maxCaptchaTries_def at
        numeral_2_eq_2 numeral_3_eq_3)
  then show ?thesis by (simp add: solveCaptcha_def andThen_def throw_def)
qed

lemma script_all_short:
  assumes "fails env = (\<lambda>_. None)" "captchaImg env = (\<lambda>_. Some src)"
    and "recognized env = (\<lambda>_. Some code)" "length code < 4"
  shows "trace (snd (script env (initial fs)))
          = opening_trace fs env
            @ [QueryCaptchaImg, ReadImgSrc, FetchRecognize src, Screenshot 1,
               QueryCaptchaImg, ReadImgSrc, FetchRecognize src, Screenshot 2,
               QueryCaptchaImg, ReadImgSrc, FetchRecognize src, Screenshot 3]
            @ cleanup_trace env (snd (script env (initial fs)))"
proof -
  let ?o = "\<lparr>files = fs, trace = opening_trace fs env, infoMessage = None,
            scriptErrorMessage = None\<rparr>"
  have "tryBlock env (initial fs)
      = (Inl CaptchaUnsolved, ?o\<lparr>trace := trace ?o
               @ [QueryCaptchaImg, ReadImgSrc, FetchRecognize src, Screenshot 1,
                  QueryCaptchaImg, ReadImgSrc, FetchRecognize src, Screenshot 2,
                  QueryCaptchaImg, ReadImgSrc, FetchRecognize src, Screenshot 3]\<rparr>)"
    by (simp add: tryBlock_nofail [OF assms(1)] solveCaptcha_all_short [OF assms] andThen_def)
  then show ?thesis
    by (simp add: script_eq finallyBlock_nofail [OF assms(1)] cleanup_trace_def)
qed

lemma opening_trace_counts:
  "filter is_query (opening_trace fs env) = []" "filter is_fetch (opening_trace fs env) = []"
  "filter is_submit (opening_trace fs env) = []"
  by (simp_all add: opening_trace_def)

lemma cleanup_trace_counts:
  "filter is_query (cleanup_trace env s) = []" "filter is_fetch (cleanup_trace env s) = []"
  "filter is_submit (cleanup_trace env s) = []"
  by (simp_all add: cleanup_trace_def split: option.splits)

text \<open>
  The recognition service answers with the empty string at each of the three attempts: the
  run makes three probes and three requests, submits nothing, and ends with the error of
  line 267.
\<close>

theorem captcha_attempts_bounded_witness:
  "attempt_unsuccessful stuck_env 1 \<and> attempt_unsuccessful stuck_env 2
   \<and> attempt_unsuccessful stuck_env 3 \<and> fails stuck_env = (\<lambda>_. None)
   \<and> terminal_state (snd (script stuck_env (initial (\<lambda>_. None)))) = Some Terminal_Error
   \<and> (\<exists>t. scriptErrorMessage (snd (script stuck_env (initial (\<lambda>_. None))))
          = Some (ErrorMsg CaptchaUnsolved t))
   \<and> length (filter is_query (trace (snd (script stuck_env (initial (\<lambda>_. None)))))) = 3
   \<and> length (filter is_fetch (trace (snd (script stuck_env (initial (\<lambda>_. None)))))) = 3
   \<and> length (filter is_submit (trace (snd (script stuck_env (initial (\<lambda>_. None)))))) = 0"
proof -
  have u: "attempt_unsuccessful stuck_env 1 \<and> attempt_unsuccessful stuck_env 2
      \<and> attempt_unsuccessful stuck_env 3"
    by (simp add: attempt_unsuccessful_def stuck_env_def)
  have f: "fails stuck_env = (\<lambda>_. None)" by (simp add: stuck_env_def plain_env_def)
  have e: "captchaImg stuck_env = (\<lambda>_. Some [0x41])" "recognized stuck_env = (\<lambda>_. Some [])"
    "length ([] :: jsstring) < 4"
    by (simp_all add: stuck_env_def)
  note t = script_all_short [OF f e, of "\<lambda>_. None"]
  have n: "length (filter is_query (trace (snd (script stuck_env (initial (\<lambda>_. None)))))) = 3"
    "length (filter is_fetch (trace (snd (script stuck_env (initial (\<lambda>_. None)))))) = 3"
    "length (filter is_submit (trace (snd (script stuck_env (initial (\<lambda>_. None)))))) = 0"
    by (subst t, simp add: opening_trace_counts cleanup_trace_counts)+
  from captcha_attempts_bounded [of stuck_env "\<lambda>_. None"] u f
  have "terminal_state (snd (script stuck_env (initial (\<lambda>_. None)))) = Some Terminal_Error"
    "\<exists>t. scriptErrorMessage (snd (script stuck_env (initial (\<lambda>_. None))))
          = Some (ErrorMsg CaptchaUnsolved t)"
    by simp_all
  with u f n show ?thesis by simp
qed

text \<open>
  A code of four characters is typed in; an answer of three characters gives an attempt of
  probe, reading of the image, request and screenshot, and the loop runs as if the request
  had failed.
\<close>

theorem short_code_never_submitted_witness:
  "Fill CaptchaInput code_1234 \<in> set (trace (snd (script captcha_env (initial (\<lambda>_. None)))))
   \<and> captchaImg short_code_env 1 = Some [0x41]
   \<and> recognized short_code_env 1 = Some code_123
   \<and> length code_123 < 4
   \<and> fails short_code_env = (\<lambda>_. None)
   \<and> captchaAttempt short_code_env 1 (initial (\<lambda>_. None))
       = (Inr Continue,
          (initial (\<lambda>_. None))\<lparr>trace := [QueryCaptchaImg, ReadImgSrc, FetchRecognize [0x41],
                                         Screenshot 1]\<rparr>)
   \<and> captchaLoop (short_code_env\<lparr>recognized := (recognized short_code_env)(1 := None)\<rparr>) 1
         (initial (\<lambda>_. None))
       = captchaLoop short_code_env 1 (initial (\<lambda>_. None))"
proof -
  have c: "fails captcha_env = (\<lambda>_. None)" "captchaImg captcha_env 1 = Some [0x41]"
    "recognized captcha_env 1 = Some code_1234"
    "4 \<le> length code_1234" "navigated captcha_env 1"
    by (simp_all add: captcha_env_def plain_env_def scenario_strings)
  from script_not_yet_after_captcha [OF c marker_in_captcha_env, of "\<lambda>_. None"]
  have m: "Fill CaptchaInput code_1234
      \<in> set (trace (snd (script captcha_env (initial (\<lambda>_. None)))))"
    by simp
  have h: "captchaImg short_code_env 1 = Some [0x41]
      \<and> recognized short_code_env 1 = Some code_123
      \<and> length code_123 < 4
      \<and> fails short_code_env = (\<lambda>_. None)"
    by (simp add: short_code_env_def plain_env_def scenario_strings)
  note t = short_code_never_submitted
    [where env = short_code_env and a = 1 and code = "code_123"
       and k = 1 and s = "initial (\<lambda>_. None)" and src = "[0x41]"]
  from t h have "captchaAttempt short_code_env 1 (initial (\<lambda>_. None))
       = (Inr Continue,
          (initial (\<lambda>_. None))\<lparr>trace := trace (initial (\<lambda>_. None))
             @ [QueryCaptchaImg, ReadImgSrc, FetchRecognize [0x41], Screenshot 1]\<rparr>)"
    and "captchaLoop (short_code_env\<lparr>recognized := (recognized short_code_env)(1 := None)\<rparr>) 1
         (initial (\<lambda>_. None))
       = captchaLoop short_code_env 1 (initial (\<lambda>_. None))"
    by simp_all
  with m h show ?thesis by (simp add: initial_def)
qed

section \<open>The notice of a page that is not yet eligible\<close>

lemma match_here_fits:
  "match_here p s = Some m \<Longrightarrow> list_all2 fits p m \<and> (\<exists>rest. s = concat m @ rest)"
proof (induction p arbitrary: s m)
  case Nil
  then show ?case by simp
next
  case (Cons a p)
  show ?case
  proof (cases a)
    case (Chr c)
    with Cons.prems obtain xs m' where "s = c # xs" "match_here p xs = Some m'" "m = [c] # m'"
      by (blast dest: match_here_Chr_Some)
    with Cons.IH [of xs m'] Chr show ?thesis by auto
  next
    case (Digits lo hi)
    with Cons.prems obtain k m' where k: "lo \<le> k" "k \<le> hi" "k \<le> length s"
        "\<forall>c \<in> set (take k s). is_digit c"
      and r: "match_here p (drop k s) = Some m'" and m: "m = take k s # m'"
      by (blast dest: match_here_Digits_Some)
    from Cons.IH [OF r] obtain rest where "list_all2 fits p m'" "drop k s = concat m' @ rest"
      by blast
    moreover have "s = take k s @ drop k s" by simp
    ultimately have "list_all2 fits p m'" "s = concat (take k s # m') @ rest"
      by (simp_all del: append_take_drop_id)
    with k m Digits show ?thesis by (auto simp: list_all_iff)
  qed
qed

lemma not_digit_signs: "\<not> is_digit ch_year" "\<not> is_digit ch_month" "\<not> is_digit ch_day"
  by (simp_all add: is_digit_def ch_year_def ch_month_def ch_day_def)

lemma match_here_Digits_exact:
  assumes "lo \<le> length ds" "length ds \<le> hi" "\<forall>c \<in> set ds. is_digit c"
    and "\<not> is_digit x" and "match_here ps (x # rest) = Some m'"
  shows "match_here (Digits lo hi # ps) (ds @ x # rest) = Some (ds # m')"
proof -
  have "takeWhile is_digit (take hi (ds @ x # rest))
      = takeWhile is_digit (ds @ take (hi - length ds) (x # rest))"
    using assms(2) by simp
  also have "\<dots> = ds @ takeWhile is_digit (take (hi - length ds) (x # rest))"
    using assms(3) by (simp add: takeWhile_append2)
  also have "takeWhile is_digit (take (hi - length ds) (x # rest)) = []"
    using assms(4) by (cases "hi - length ds") simp_all
  finally have n: "length (takeWhile is_digit (take hi (ds @ x # rest))) = length ds" by simp
  have r: "rev [lo ..< Suc (length ds)] = length ds # rev [lo ..< length ds]"
    using assms(1) by simp
  have "match_here (Digits lo hi # ps) (ds @ x # rest)
      = first_some (map (\<lambda>k. map_option ((#) (take k (ds @ x # rest)))
                                 (match_here ps (drop k (ds @ x # rest))))
                        (rev [lo ..< Suc (length ds)]))"
    by (simp only: match_here.simps Let_def n)
  also have "\<dots> = Some (ds # m')"
    unfolding r using assms(5) by simp
  finally show ?thesis .
qed

lemma match_here_Chrs:
  "match_here (map Chr cs) (cs @ rest) = Some (map (\<lambda>c. [c]) cs)"
  by (induction cs) simp_all

lemma regex_exec_None_iff:
  "regex_exec p s = None \<longleftrightarrow> (\<forall>n \<le> length s. match_here p (drop n s) = None)"
proof (induction s)
  case Nil
  then show ?case by simp
next
  case (Cons x xs)
  have "(\<forall>n \<le> length (x # xs). match_here p (drop n (x # xs)) = None)
      \<longleftrightarrow> match_here p (x # xs) = None \<and> (\<forall>n \<le> length xs. match_here p (drop n xs) = None)"
    (is "?L \<longleftrightarrow> ?R")
  proof
    assume l: ?L
    have "match_here p (drop 0 (x # xs)) = None" using l by blast
    moreover have "match_here p (drop n xs) = None" if "n \<le> length xs" for n
      using l [rule_format, of "Suc n"] that by simp
    ultimately show ?R by simp
  next
    assume r: ?R
    show ?L
    proof (intro allI impI)
      fix n assume "n \<le> length (x # xs)"
      with r show "match_here p (drop n (x # xs)) = None" by (cases n) simp_all
    qed
  qed
  with Cons show ?case by (simp split: option.splits)
qed

lemma regex_exec_leftmost:
  "regex_exec p s = Some m \<longleftrightarrow>
     (\<exists>n \<le> length s. match_here p (drop n s) = Some m
        \<and> (\<forall>k < n. match_here p (drop k s) = None))"
proof (induction s)
  case Nil
  then show ?case by simp
next
  case (Cons x xs)
  show ?case
  proof (cases "match_here p (x # xs)")
    case (Some a)
    have "(\<exists>n \<le> length (x # xs). match_here p (drop n (x # xs)) = Some m
        \<and> (\<forall>k < n. match_here p (drop k (x # xs)) = None)) \<longleftrightarrow> a = m"
    proof
      assume "\<exists>n \<le> length (x # xs). match_here p (drop n (x # xs)) = Some m
        \<and> (\<forall>k < n. match_here p (drop k (x # xs)) = None)"
      then obtain n where n: "match_here p (drop n (x # xs)) = Some m"
        "\<forall>k < n. match_here p (drop k (x # xs)) = None" by blast
      have "n = 0"
      proof (rule ccontr)
        assume "n \<noteq> 0"
        then have "match_here p (drop 0 (x # xs)) = None" using n(2) by blast
        with Some show False by simp
      qed
      with n(1) Some show "a = m" by simp
    next
      assume "a = m"
      with Some have "match_here p (drop 0 (x # xs)) = Some m
        \<and> (\<forall>k < 0. match_here p (drop k (x # xs)) = None)" by simp
      then show "\<exists>n \<le> length (x # xs). match_here p (drop n (x # xs)) = Some m
        \<and> (\<forall>k < n. match_here p (drop k (x # xs)) = None)" by blast
    qed
    with Some show ?thesis by simp
  next
    case None
    have "(\<exists>n \<le> length (x # xs). match_here p (drop n (x # xs)) = Some m
        \<and> (\<forall>k < n. match_here p (drop k (x # xs)) = None))
      \<longleftrightarrow> (\<exists>n \<le> length xs. match_here p (drop n xs) = Some m
        \<and> (\<forall>k < n. match_here p (drop k xs) = None))" (is "?L \<longleftrightarrow> ?R")
    proof
      assume ?L
      then obtain n where n: "n \<le> length (x # xs)" "match_here p (drop n (x # xs)) = Some m"
        "\<forall>k < n. match_here p (drop k (x # xs)) = None" by blast
      from n(2) None obtain j where j: "n = Suc j" by (cases n) simp_all
      have "\<forall>k < j. match_here p (drop k xs) = None"
      proof (intro allI impI)
        fix k assume "k < j"
        then have "Suc k < n" using j by simp
        with n(3) have "match_here p (drop (Suc k) (x # xs)) = None" by blast
        then show "match_here p (drop k xs) = None" by simp
      qed
      with n(1,2) j show ?R by auto
    next
      assume ?R
      then obtain n where n: "n \<le> length xs" "match_here p (drop n xs) = Some m"
        "\<forall>k < n. match_here p (drop k xs) = None" by blast
      have "\<forall>k < Suc n. match_here p (drop k (x # xs)) = None"
      proof (intro allI impI)
        fix k assume "k < Suc n"
        with n(3) None show "match_here p (drop k (x # xs)) = None" by (cases k) simp_all
      qed
      with n(1,2) have "Suc n \<le> length (x # xs) \<and> match_here p (drop (Suc n) (x # xs)) = Some m
        \<and> (\<forall>k < Suc n. match_here p (drop k (x # xs)) = None)" by simp
      then show ?L by blast
    qed
    with None Cons show ?thesis by simp
  qed
qed


lemma concat_singletons: "concat (map (\<lambda>c. [c]) cs) = cs"
  by (induction cs) simp_all

lemma fits_Chrs: "list_all2 fits (map Chr cs) m \<Longrightarrow> m = map (\<lambda>c. [c]) cs"
proof (induction cs arbitrary: m)
  case Nil
  then show ?case by simp
next
  case (Cons c cs)
  then show ?case by (cases m) auto
qed

lemma eligible_rx_match:
  assumes "date_fields y mo d"
  shows "match_here eligible_rx (notice y mo d @ rest)
           = Some ([y, [ch_year], mo, [ch_month], d, [ch_day]] @ map (\<lambda>c. [c]) try_later_suffix)"
proof -
  from assms have y: "4 \<le> length y" "length y \<le> 4" "\<forall>c \<in> set y. is_digit c"
    and mo: "1 \<le> length mo" "length mo \<le> 2" "\<forall>c \<in> set mo. is_digit c"
    and d: "1 \<le> length d" "length d \<le> 2" "\<forall>c \<in> set d. is_digit c"
    by (simp_all add: date_fields_def list_all_iff)
  let ?q = "map Chr try_later_suffix" and ?t = "try_later_suffix @ rest"
  let ?m = "map (\<lambda>c. [c]) try_later_suffix"
  have 6: "match_here ?q ?t = Some ?m" by (rule match_here_Chrs)
  have 5: "match_here (Chr ch_day # ?q) (ch_day # ?t) = Some ([ch_day] # ?m)"
    using 6 by simp
  have 4: "match_here (Digits 1 2 # Chr ch_day # ?q) (d @ ch_day # ?t)
      = Some (d # [ch_day] # ?m)"
    using d not_digit_signs(3) 5 by (rule match_here_Digits_exact)
  have 3: "match_here (Chr ch_month # Digits 1 2 # Chr ch_day # ?q) (ch_month # d @ ch_day # ?t)
      = Some ([ch_month] # d # [ch_day] # ?m)"
    using 4 by simp
  have 2: "match_here (Digits 1 2 # Chr ch_month # Digits 1 2 # Chr ch_day # ?q)
        (mo @ ch_month # d @ ch_day # ?t)
      = Some (mo # [ch_month] # d # [ch_day] # ?m)"
    using mo not_digit_signs(2) 3 by (rule match_here_Digits_exact)
  have 1: "match_here (Chr ch_year # Digits 1 2 # Chr ch_month # Digits 1 2 # Chr ch_day # ?q)
        (ch_year # mo @ ch_month # d @ ch_day # ?t)
      = Some ([ch_year] # mo # [ch_month] # d # [ch_day] # ?m)"
    using 2 by simp
  have 0: "match_here (Digits 4 4 # Chr ch_year # Digits 1 2 # Chr ch_month # Digits 1 2
          # Chr ch_day # ?q)
        (y @ ch_year # mo @ ch_month # d @ ch_day # ?t)
      = Some (y # [ch_year] # mo # [ch_month] # d # [ch_day] # ?m)"
    using y not_digit_signs(1) 1 by (rule match_here_Digits_exact)
  then show ?thesis by (simp add: eligible_rx_def date_rx_def notice_def)
qed

lemma eligible_rx_shape:
  assumes "match_here eligible_rx s = Some m"
  shows "\<exists>y mo d rest. date_fields y mo d \<and> s = notice y mo d @ rest
           \<and> m = [y, [ch_year], mo, [ch_month], d, [ch_day]] @ map (\<lambda>c. [c]) try_later_suffix"
proof -
  from match_here_fits [OF assms] obtain rest where
    f: "list_all2 fits eligible_rx m" and s: "s = concat m @ rest" by blast
  from f obtain y a mo b d c m2 where m: "m = y # a # mo # b # d # c # m2"
    and p: "fits (Digits 4 4) y" "fits (Chr ch_year) a" "fits (Digits 1 2) mo"
      "fits (Chr ch_month) b" "fits (Digits 1 2) d" "fits (Chr ch_day) c"
    and q: "list_all2 fits (map Chr try_later_suffix) m2"
    by (auto simp: eligible_rx_def date_rx_def list_all2_Cons1)
  from q have m2: "m2 = map (\<lambda>c. [c]) try_later_suffix" by (rule fits_Chrs)
  have "concat m2 = try_later_suffix" unfolding m2 by (rule concat_singletons)
  with m p s have "s = notice y mo d @ rest" by (simp add: notice_def)
  moreover from p have "date_fields y mo d" by (simp add: date_fields_def)
  moreover from m p m2 have
    "m = [y, [ch_year], mo, [ch_month], d, [ch_day]] @ map (\<lambda>c. [c]) try_later_suffix"
    by simp
  ultimately show ?thesis by blast
qed

lemma date_rx_on_fields:
  assumes "date_fields y mo d"
  shows "match_here date_rx (y @ [ch_year] @ mo @ [ch_month] @ d @ [ch_day])
           = Some [y, [ch_year], mo, [ch_month], d, [ch_day]]"
proof -
  from assms have y: "4 \<le> length y" "length y \<le> 4" "\<forall>c \<in> set y. is_digit c"
    and mo: "1 \<le> length mo" "length mo \<le> 2" "\<forall>c \<in> set mo. is_digit c"
    and d: "1 \<le> length d" "length d \<le> 2" "\<forall>c \<in> set d. is_digit c"
    by (simp_all add: date_fields_def list_all_iff)
  have 5: "match_here [Chr ch_day] (ch_day # []) = Some [[ch_day]]" by simp
  have 4: "match_here [Digits 1 2, Chr ch_day] (d @ ch_day # []) = Some [d, [ch_day]]"
    using d not_digit_signs(3) 5 by (rule match_here_Digits_exact)
  have 3: "match_here [Chr ch_month, Digits 1 2, Chr ch_day] (ch_month # d @ ch_day # [])
      = Some [[ch_month], d, [ch_day]]"
    using 4 by simp
  have 2: "match_here [Digits 1 2, Chr ch_month, Digits 1 2, Chr ch_day]
        (mo @ ch_month # d @ ch_day # []) = Some [mo, [ch_month], d, [ch_day]]"
    using mo not_digit_signs(2) 3 by (rule match_here_Digits_exact)
  have 1: "match_here [Chr ch_year, Digits 1 2, Chr ch_month, Digits 1 2, Chr ch_day]
        (ch_year # mo @ ch_month # d @ ch_day # [])
      = Some [[ch_year], mo, [ch_month], d, [ch_day]]"
    using 2 by simp
  have "match_here [Digits 4 4, Chr ch_year, Digits 1 2, Chr ch_month, Digits 1 2, Chr ch_day]
        (y @ ch_year # mo @ ch_month # d @ ch_day # [])
      = Some [y, [ch_year], mo, [ch_month], d, [ch_day]]"
    using y not_digit_signs(1) 1 by (rule match_here_Digits_exact)
  then show ?thesis by (simp add: date_rx_def)
qed

lemma formatChineseDate_on_fields:
  assumes "date_fields y mo d"
  shows "formatChineseDate (y @ [ch_year] @ mo @ [ch_month] @ d @ [ch_day])
           = y @ [ch_year] @ padStart 2 [ch_zero] mo @ [ch_month]
               @ padStart 2 [ch_zero] d @ [ch_day]"
proof -
  let ?s = "y @ [ch_year] @ mo @ [ch_month] @ d @ [ch_day]"
  have "regex_exec date_rx ?s = Some [y, [ch_year], mo, [ch_month], d, [ch_day]]"
    using date_rx_on_fields [OF assms] by (rule regex_exec_at_start)
  moreover have "?s \<noteq> []" by simp
  ultimately show ?thesis unfolding formatChineseDate_def [of ?s] by simp
qed

lemma notice_has_match:
  assumes "date_fields y mo d" "text = pre @ notice y mo d @ post"
  shows "length pre \<le> length text"
    and "match_here eligible_rx (drop (length pre) text)
           = Some ([y, [ch_year], mo, [ch_month], d, [ch_day]]
                   @ map (\<lambda>c. [c]) try_later_suffix)"
  using assms eligible_rx_match [OF assms(1), of post] by simp_all

lemma eligible_date_shown_eligibleDate: "eligible_date_shown text (eligibleDate text)"
proof (cases "regex_exec eligible_rx text")
  case None
  then have none: "\<And>n. n \<le> length text \<Longrightarrow> match_here eligible_rx (drop n text) = None"
    by (simp add: regex_exec_None_iff)
  have no: "text \<noteq> pre @ notice y mo d @ post" if "date_fields y mo d" for pre y mo d post
  proof
    assume t: "text = pre @ notice y mo d @ post"
    from notice_has_match [OF that t] none [of "length pre"] show False by simp
  qed
  have "eligibleDate text = unknown_str" using None by (simp add: eligibleDate_def)
  with no show ?thesis unfolding eligible_date_shown_def by blast
next
  case (Some m)
  then obtain n where n: "n \<le> length text" "match_here eligible_rx (drop n text) = Some m"
    and first: "\<And>k. k < n \<Longrightarrow> match_here eligible_rx (drop k text) = None"
    by (auto simp: regex_exec_leftmost)
  from eligible_rx_shape [OF n(2)] obtain y0 mo0 d0 rest where
    f0: "date_fields y0 mo0 d0" and d0: "drop n text = notice y0 mo0 d0 @ rest" by blast
  have t0: "text = take n text @ notice y0 mo0 d0 @ rest"
    using d0 by (metis append_take_drop_id)
  have l0: "length (take n text) = n" using n(1) by simp
  have e: "eligibleDate text = y @ [ch_year] @ padStart 2 [ch_zero] mo @ [ch_month]
                     @ padStart 2 [ch_zero] d @ [ch_day]"
    if f: "date_fields y mo d" and t: "text = pre @ notice y mo d @ post"
      and least: "\<And>pre' y' mo' d' post'. date_fields y' mo' d' \<Longrightarrow>
        text = pre' @ notice y' mo' d' @ post' \<Longrightarrow> length pre \<le> length pre'"
    for pre y mo d post
  proof -
    from least [OF f0 t0] l0 have "length pre \<le> n" by simp
    moreover have "\<not> length pre < n"
    proof
      assume "length pre < n"
      from first [OF this] notice_has_match(2) [OF f t] show False by simp
    qed
    ultimately have "length pre = n" by simp
    with notice_has_match(2) [OF f t] n(2) have
      m: "m = [y, [ch_year], mo, [ch_month], d, [ch_day]] @ map (\<lambda>c. [c]) try_later_suffix"
      by simp
    have "concat (take 6 m) = y @ [ch_year] @ mo @ [ch_month] @ d @ [ch_day]"
      unfolding m by simp
    then have "eligibleDate text
        = (let r = formatChineseDate (y @ [ch_year] @ mo @ [ch_month] @ d @ [ch_day])
           in if r = [] then unknown_str else r)"
      using Some by (simp add: eligibleDate_def)
    then show ?thesis
      using formatChineseDate_on_fields [OF f] by (simp add: Let_def)
  qed
  show ?thesis unfolding eligible_date_shown_def
  proof (intro conjI impI allI)
    assume "\<forall>pre y mo d post. date_fields y mo d \<longrightarrow> text \<noteq> pre @ notice y mo d @ post"
    with f0 t0 show "eligibleDate text = unknown_str" by blast
  next
    fix pre y mo d post
    assume a: "date_fields y mo d \<and> text = pre @ notice y mo d @ post
             \<and> (\<forall>pre' y' mo' d' post'.
                   date_fields y' mo' d' \<and> text = pre' @ notice y' mo' d' @ post'
                     \<longrightarrow> length pre \<le> length pre')"
    then show "eligibleDate text = y @ [ch_year] @ padStart 2 [ch_zero] mo @ [ch_month]
                     @ padStart 2 [ch_zero] d @ [ch_day]"
      by (intro e [of y mo d pre post]) blast+
  qed
qed

lemma eligible_date_shown_unique:
  assumes "eligible_date_shown text e"
  shows "e = eligibleDate text"
proof (cases "regex_exec eligible_rx text")
  case None
  then have none: "\<And>n. n \<le> length text \<Longrightarrow> match_here eligible_rx (drop n text) = None"
    by (simp add: regex_exec_None_iff)
  have no: "text \<noteq> pre @ notice y mo d @ post" if "date_fields y mo d" for pre y mo d post
  proof
    assume t: "text = pre @ notice y mo d @ post"
    from notice_has_match [OF that t] none [of "length pre"] show False by simp
  qed
  with assms have "e = unknown_str" unfolding eligible_date_shown_def by blast
  moreover have "eligibleDate text = unknown_str" using None by (simp add: eligibleDate_def)
  ultimately show ?thesis by simp
next
  case (Some m)
  then obtain n where n: "n \<le> length text" "match_here eligible_rx (drop n text) = Some m"
    and first: "\<And>k. k < n \<Longrightarrow> match_here eligible_rx (drop k text) = None"
    by (auto simp: regex_exec_leftmost)
  from eligible_rx_shape [OF n(2)] obtain y mo d rest where
    f: "date_fields y mo d" and d: "drop n text = notice y mo d @ rest" by blast
  have t: "text = take n text @ notice y mo d @ rest"
    using d by (metis append_take_drop_id)
  have l: "length (take n text) = n" using n(1) by simp
  have least: "length (take n text) \<le> length pre'"
    if "date_fields y' mo' d'" "text = pre' @ notice y' mo' d' @ post'" for pre' y' mo' d' post'
  proof (rule ccontr)
    assume "\<not> length (take n text) \<le> length pre'"
    then have "length pre' < n" using l by simp
    from first [OF this] notice_has_match(2) [OF that] show False by simp
  qed
  let ?v = "y @ [ch_year] @ padStart 2 [ch_zero] mo @ [ch_month]
              @ padStart 2 [ch_zero] d @ [ch_day]"
  from assms f t least have "e = ?v" unfolding eligible_date_shown_def by blast
  moreover from eligible_date_shown_eligibleDate [of "text"] f t least
  have "eligibleDate text = ?v" unfolding eligible_date_shown_def by blast
  ultimately show ?thesis by simp
qed

section \<open>The marker is looked for after the CAPTCHA loop\<close>

lemma solveCaptcha_solved:
  assumes "solveCaptcha env s1 = (Inr (), s2)"
  shows "captchaLoop env 1 s1 = (Inr True, s2)"
proof -
  obtain r s' where l: "captchaLoop env 1 s1 = (r, s')" by (cases "captchaLoop env 1 s1")
  with assms show ?thesis
    by (cases r) (auto simp: solveCaptcha_def andThen_def throw_def ok_def split: if_splits)
qed

lemma cleanup_no_body_text:
  "list_all cleanup_event evs \<Longrightarrow> GetBodyText \<notin> set evs"
  using cleanup_event_excludes by (auto simp: list_all_iff)

lemma script_reads_body_text:
  fixes env fs
  defines "fin \<equiv> snd (script env (initial fs))"
  assumes "GetBodyText \<in> set (trace fin)"
  obtains s1 s2 loop r s3 where
    "list_all pre_event (trace s1)" "captchaLoop env 1 s1 = (Inr True, s2)"
    "trace s2 = trace s1 @ loop" "QueryCaptchaImg \<in> set loop"
    "files s2 ExpireTxt = fs ExpireTxt" "infoMessage s2 = None" "scriptErrorMessage s2 = None"
    "afterCaptcha env (persistedDate fs) (formatChineseDate (currentExpireDateRaw env)) s2
       = (r, s3)"
    "fin = snd (finallyBlock env
             (case r of Inl e \<Rightarrow> s3\<lparr>scriptErrorMessage :=
                                       Some (ErrorMsg e (clock env (length (trace s3))))\<rparr>
                      | Inr u \<Rightarrow> s3))"
proof (cases rule: tryBlock_cases [of env "initial fs"])
  case (before e s1)
  from before(2) have p: "list_all pre_event (trace s1)"
    by (auto simp: quiet_def initial_def)
  let ?s = "s1\<lparr>scriptErrorMessage := Some (ErrorMsg e (clock env (length (trace s1))))\<rparr>"
  have "fin = snd (finallyBlock env ?s)" using before(1) by (simp add: fin_def script_eq)
  with finallyBlock_run [of env ?s] obtain evs where
    "trace fin = trace s1 @ Sleep 5000 # RecorderStop # evs" "list_all cleanup_event evs"
    by auto
  with p assms(2) pre_event_excludes cleanup_no_body_text have False
    by (auto simp: list_all_iff)
  then show ?thesis ..
next
  case (captcha e s1 s2)
  from captcha(1) have p: "list_all pre_event (trace s1)"
    by (auto simp: quiet_def initial_def)
  from solveCaptcha_run [of env s1] captcha(2) obtain loop where
    l: "trace s2 = trace s1 @ loop" "loop_trace maxCaptchaTries loop" by auto
  let ?s = "s2\<lparr>scriptErrorMessage := Some (ErrorMsg e (clock env (length (trace s2))))\<rparr>"
  have "fin = snd (finallyBlock env ?s)" using captcha(3) by (simp add: fin_def script_eq)
  with finallyBlock_run [of env ?s] obtain evs where
    "trace fin = trace s2 @ Sleep 5000 # RecorderStop # evs" "list_all cleanup_event evs"
    by auto
  with p l loop_trace_events [OF l(2)] assms(2)
    pre_event_excludes loop_event_excludes cleanup_no_body_text have False
    by (auto simp: list_all_iff)
  then show ?thesis ..
next
  case (after s1 s2)
  from after(1) have p: "list_all pre_event (trace s1)"
    and u1: "files s1 ExpireTxt = fs ExpireTxt" "infoMessage s1 = None"
      "scriptErrorMessage s1 = None"
    by (auto simp: quiet_def initial_def)
  from solveCaptcha_run [of env s1] after(2) obtain loop where
    l: "trace s2 = trace s1 @ loop" "QueryCaptchaImg \<in> set loop" "unchanged s1 s2" by auto
  obtain r s3 where a: "afterCaptcha env (persistedDate fs)
      (formatChineseDate (currentExpireDateRaw env)) s2 = (r, s3)"
    by (cases "afterCaptcha env (persistedDate fs)
      (formatChineseDate (currentExpireDateRaw env)) s2")
  have t: "tryBlock env (initial fs) = (r, s3)" using after(3) a by (simp add: initial_def)
  have f: "fin = snd (finallyBlock env
             (case r of Inl e \<Rightarrow> s3\<lparr>scriptErrorMessage :=
                                       Some (ErrorMsg e (clock env (length (trace s3))))\<rparr>
                      | Inr u \<Rightarrow> s3))"
    using t by (cases r) (simp_all add: fin_def script_eq)
  have u2: "files s2 ExpireTxt = fs ExpireTxt" "infoMessage s2 = None"
    "scriptErrorMessage s2 = None"
    using u1 l(3) by (simp_all add: unchanged_def)
  from p solveCaptcha_solved [OF after(2)] l(1,2) u2 a f show ?thesis by (rule that)
qed


lemma cleanup_event_no_click: "cleanup_event ev \<Longrightarrow> clicked ev = None"
  by (cases ev) simp_all

lemma script_marker_after_loop:
  fixes env fs
  defines "fin \<equiv> snd (script env (initial fs))"
  assumes g: "GetBodyText \<in> set (trace fin)"
  shows "\<exists>s1 s2 loop rest.
        list_all pre_event (trace s1) \<and> captchaLoop env 1 s1 = (Inr True, s2)
        \<and> trace s2 = trace s1 @ loop \<and> QueryCaptchaImg \<in> set loop
        \<and> trace fin = trace s2 @ GetBodyText # rest
        \<and> (js_includes not_yet_marker (bodyText env) \<and> fails env (length (trace s2)) = None \<longrightarrow>
             list_all (\<lambda>ev. cleanup_event ev \<and> clicked ev = None) rest
             \<and> terminal_state fin = Some Terminal_NotYetEligible
             \<and> (\<exists>e t. eligible_date_shown (bodyText env) e
                   \<and> infoMessage fin
                       = Some (NotYetMsg e (formatChineseDate (currentExpireDateRaw env)) t))
             \<and> files fin ExpireTxt = fs ExpireTxt)"
proof (rule script_reads_body_text [of env fs])
  show "GetBodyText \<in> set (trace (snd (script env (initial fs))))"
    using g by (simp add: fin_def)
next
  fix s1 s2 s3 :: state and loop :: "event list" and r :: "exn + unit"
  let ?cur = "formatChineseDate (currentExpireDateRaw env)"
  let ?s4 = "case r of Inl e \<Rightarrow> s3\<lparr>scriptErrorMessage :=
                                       Some (ErrorMsg e (clock env (length (trace s3))))\<rparr>
                      | Inr u \<Rightarrow> s3"
  assume p: "list_all pre_event (trace s1)" and c: "captchaLoop env 1 s1 = (Inr True, s2)"
    and l: "trace s2 = trace s1 @ loop" "QueryCaptchaImg \<in> set loop"
    and u: "files s2 ExpireTxt = fs ExpireTxt" "infoMessage s2 = None"
      "scriptErrorMessage s2 = None"
    and a: "afterCaptcha env (persistedDate fs) ?cur s2 = (r, s3)"
    and f: "snd (script env (initial fs)) = snd (finallyBlock env ?s4)"
  have fin: "fin = snd (finallyBlock env ?s4)" using f by (simp add: fin_def)
  from afterCaptcha_run [OF a] obtain evs where
    t3: "trace s3 = trace s2 @ GetBodyText # evs" by blast
  have t4: "trace ?s4 = trace s3" by (cases r) simp_all
  from finallyBlock_run [of env ?s4] fin obtain cl where
    cl: "trace fin = trace ?s4 @ Sleep 5000 # RecorderStop # cl" "list_all cleanup_event cl"
      "files fin = files ?s4" "infoMessage fin = infoMessage ?s4"
      "scriptErrorMessage fin = scriptErrorMessage ?s4"
    by auto
  have tf: "trace fin = trace s2 @ GetBodyText # (evs @ Sleep 5000 # RecorderStop # cl)"
    using cl(1) t4 t3 by simp
  have m: "list_all (\<lambda>ev. cleanup_event ev \<and> clicked ev = None)
               (evs @ Sleep 5000 # RecorderStop # cl)
             \<and> terminal_state fin = Some Terminal_NotYetEligible
             \<and> (\<exists>e t. eligible_date_shown (bodyText env) e
                   \<and> infoMessage fin = Some (NotYetMsg e ?cur t))
             \<and> files fin ExpireTxt = fs ExpireTxt"
    if h: "js_includes not_yet_marker (bodyText env) \<and> fails env (length (trace s2)) = None"
  proof -
    from h have mk: "js_includes not_yet_marker (bodyText env)"
      and nf: "fails env (length (trace s2)) = None" by simp_all
    let ?m = "NotYetMsg (eligibleDate (bodyText env)) ?cur (clock env (Suc (length (trace s2))))"
    have "afterCaptcha env (persistedDate fs) ?cur s2
        = (Inr (), s2\<lparr>trace := trace s2 @ [GetBodyText], infoMessage := Some ?m\<rparr>)"
      unfolding afterCaptcha_not_yet [OF mk nf]
      by (simp add: eligibleDate_def Let_def formatChineseDate_nonempty split: option.splits)
    with a have r: "r = Inr ()"
      and s3: "s3 = s2\<lparr>trace := trace s2 @ [GetBodyText], infoMessage := Some ?m\<rparr>"
      by simp_all
    from s3 t3 have "evs = []" by simp
    moreover have "list_all (\<lambda>ev. cleanup_event ev \<and> clicked ev = None) cl"
      using cl(2) cleanup_event_no_click by (auto simp: list_all_iff)
    ultimately have 1: "list_all (\<lambda>ev. cleanup_event ev \<and> clicked ev = None)
               (evs @ Sleep 5000 # RecorderStop # cl)" by simp
    have i: "infoMessage fin = Some ?m" "scriptErrorMessage fin = None"
      "files fin ExpireTxt = fs ExpireTxt"
      using cl(3-5) r s3 u by simp_all
    from i have 2: "terminal_state fin = Some Terminal_NotYetEligible"
      by (simp add: terminal_state_def)
    from i(1) eligible_date_shown_eligibleDate [of "bodyText env"]
    have 3: "\<exists>e t. eligible_date_shown (bodyText env) e
                   \<and> infoMessage fin = Some (NotYetMsg e ?cur t)" by blast
    from 1 2 3 i(3) show ?thesis by simp
  qed
  from p c l tf m show ?thesis by blast
qed

lemma script_no_continue_click:
  assumes "fails env = (\<lambda>_. None)" "captchaImg env 1 = None"
    and "js_includes not_yet_marker (bodyText env)"
  shows "\<forall>ev \<in> set (trace (snd (script env (initial fs)))).
           clicked ev \<noteq> Some ConfirmContinue \<and> \<not> is_fetch ev \<and> \<not> is_submit ev"
proof -
  have "\<forall>ev \<in> set (opening_trace fs env
            @ [QueryCaptchaImg, GetPageContent, WriteFile NoCaptchaHtml (pageContent env),
               GetBodyText]
            @ cleanup_trace env s).
           clicked ev \<noteq> Some ConfirmContinue \<and> \<not> is_fetch ev \<and> \<not> is_submit ev" for s
    by (auto simp: opening_trace_def cleanup_trace_def split: option.splits if_splits)
  with script_not_yet [OF assms, of fs] show ?thesis by simp
qed

text \<open>
  Claim C2, amended. The page text is read only after the CAPTCHA resolver has ended
  solved: in every run that reads the page text, the effects before the reading are those
  of the steps up to the renewal action, followed by those of a loop that starts at attempt
  1, ends solved and holds a probe for the challenge image. When the page text carries the
  marker and the reading itself does not throw, only cleanup follows, without any click:
  the run ends in the not-yet-eligible state, its message carries the eligible date shown
  by the page text (the date of the first notice, padded, or the word for unknown) and the
  current expiration date, and \<open>expire.txt\<close> is as it was. When each of the three
  attempts is unsuccessful, the page text is never read. When no call throws, the page shows
  no challenge image and the page text carries the marker, the run ends without an error
  with exactly the effects listed; none of them is a recognition request, a submission or
  a click on the button of the confirmation.
\<close>

theorem not_yet_eligible_stops_run:
  "(GetBodyText \<in> set (trace (snd (script env (initial fs)))) \<longrightarrow>
      (\<exists>s1 s2 loop rest.
         list_all pre_event (trace s1) \<and> captchaLoop env 1 s1 = (Inr True, s2)
         \<and> trace s2 = trace s1 @ loop \<and> QueryCaptchaImg \<in> set loop
         \<and> trace (snd (script env (initial fs))) = trace s2 @ GetBodyText # rest
         \<and> (js_includes not_yet_marker (bodyText env)
              \<and> fails env (length (trace s2)) = None \<longrightarrow>
              list_all (\<lambda>ev. cleanup_event ev \<and> clicked ev = None) rest
              \<and> terminal_state (snd (script env (initial fs))) = Some Terminal_NotYetEligible
              \<and> (\<exists>e t. eligible_date_shown (bodyText env) e
                    \<and> infoMessage (snd (script env (initial fs)))
                        = Some (NotYetMsg e (formatChineseDate (currentExpireDateRaw env)) t))
              \<and> files (snd (script env (initial fs))) ExpireTxt = fs ExpireTxt)))
   \<and> (attempt_unsuccessful env 1 \<and> attempt_unsuccessful env 2 \<and> attempt_unsuccessful env 3
        \<longrightarrow> GetBodyText \<notin> set (trace (snd (script env (initial fs)))))
   \<and> (js_includes not_yet_marker (bodyText env) \<and> fails env = (\<lambda>_. None)
        \<and> captchaImg env 1 = None \<longrightarrow>
        fst (script env (initial fs)) = Inr ()
        \<and> trace (snd (script env (initial fs)))
            = opening_trace fs env
              @ [QueryCaptchaImg, GetPageContent, WriteFile NoCaptchaHtml (pageContent env),
                 GetBodyText]
              @ cleanup_trace env (snd (script env (initial fs)))
        \<and> (\<forall>ev \<in> set (trace (snd (script env (initial fs)))).
              clicked ev \<noteq> Some ConfirmContinue \<and> \<not> is_fetch ev \<and> \<not> is_submit ev))"
proof (intro conjI impI)
  assume "GetBodyText \<in> set (trace (snd (script env (initial fs))))"
  then show "\<exists>s1 s2 loop rest.
         list_all pre_event (trace s1) \<and> captchaLoop env 1 s1 = (Inr True, s2)
         \<and> trace s2 = trace s1 @ loop \<and> QueryCaptchaImg \<in> set loop
         \<and> trace (snd (script env (initial fs))) = trace s2 @ GetBodyText # rest
         \<and> (js_includes not_yet_marker (bodyText env)
              \<and> fails env (length (trace s2)) = None \<longrightarrow>
              list_all (\<lambda>ev. cleanup_event ev \<and> clicked ev = None) rest
              \<and> terminal_state (snd (script env (initial fs))) = Some Terminal_NotYetEligible
              \<and> (\<exists>e t. eligible_date_shown (bodyText env) e
                    \<and> infoMessage (snd (script env (initial fs)))
                        = Some (NotYetMsg e (formatChineseDate (currentExpireDateRaw env)) t))
              \<and> files (snd (script env (initial fs))) ExpireTxt = fs ExpireTxt)"
    by (rule script_marker_after_loop)
next
  assume "attempt_unsuccessful env 1 \<and> attempt_unsuccessful env 2 \<and> attempt_unsuccessful env 3"
  then have "attempt_unsuccessful env 1" "attempt_unsuccessful env 2"
    "attempt_unsuccessful env 3" by simp_all
  from script_exhausted [OF this, of fs]
  show "GetBodyText \<notin> set (trace (snd (script env (initial fs))))" by simp
next
  assume h: "js_includes not_yet_marker (bodyText env) \<and> fails env = (\<lambda>_. None)
        \<and> captchaImg env 1 = None"
  then have a: "fails env = (\<lambda>_. None)" "captchaImg env 1 = None"
    "js_includes not_yet_marker (bodyText env)" by simp_all
  note r = script_not_yet [OF a, of fs]
  from r show "fst (script env (initial fs)) = Inr ()" by simp
  from r show "trace (snd (script env (initial fs)))
            = opening_trace fs env
              @ [QueryCaptchaImg, GetPageContent, WriteFile NoCaptchaHtml (pageContent env),
                 GetBodyText]
              @ cleanup_trace env (snd (script env (initial fs)))" by simp
  show "\<forall>ev \<in> set (trace (snd (script env (initial fs)))).
              clicked ev \<noteq> Some ConfirmContinue \<and> \<not> is_fetch ev \<and> \<not> is_submit ev"
    using a by (rule script_no_continue_click)
qed

lemma too_early_notice:
  "date_fields [0x32, 0x30, 0x32, 0x35] [0x30, 0x39] [0x30, 0x36]"
  "bodyText too_early_env
     = not_yet_marker @ notice [0x32, 0x30, 0x32, 0x35] [0x30, 0x39] [0x30, 0x36] @ []"
  by code_simp+

lemma too_early_first_notice:
  assumes "date_fields y mo d" "bodyText too_early_env = pre @ notice y mo d @ post"
  shows "length not_yet_marker \<le> length pre"
proof (rule ccontr)
  assume "\<not> length not_yet_marker \<le> length pre"
  then have "length pre \<in> set [0 ..< 20]" by (simp add: not_yet_marker_def)
  moreover have "\<forall>k \<in> set [0 ..< 20].
      match_here eligible_rx (drop k (bodyText too_early_env)) = None"
    by code_simp
  ultimately have "match_here eligible_rx (drop (length pre) (bodyText too_early_env)) = None"
    by blast
  with notice_has_match(2) [OF assms] show False by simp
qed

text \<open>
  The page that names 6 September 2025: its run reads the page text and ends as not yet
  eligible with that date and the current expiration date of 7 July 2025. In the
  environment in which the service answers every image with the empty string, the page
  text is never read.
\<close>

theorem not_yet_eligible_stops_run_witness:
  "js_includes not_yet_marker (bodyText too_early_env) \<and> fails too_early_env = (\<lambda>_. None)
   \<and> captchaImg too_early_env 1 = None
   \<and> date_fields [0x32, 0x30, 0x32, 0x35] [0x30, 0x39] [0x30, 0x36]
   \<and> bodyText too_early_env
       = not_yet_marker @ notice [0x32, 0x30, 0x32, 0x35] [0x30, 0x39] [0x30, 0x36] @ []
   \<and> GetBodyText \<in> set (trace (snd (script too_early_env (initial (\<lambda>_. None)))))
   \<and> terminal_state (snd (script too_early_env (initial (\<lambda>_. None))))
       = Some Terminal_NotYetEligible
   \<and> (\<exists>t. infoMessage (snd (script too_early_env (initial (\<lambda>_. None))))
          = Some (NotYetMsg date_2025_09_06 date_2025_07_07 t))
   \<and> attempt_unsuccessful stuck_env 1 \<and> attempt_unsuccessful stuck_env 2
   \<and> attempt_unsuccessful stuck_env 3
   \<and> GetBodyText \<notin> set (trace (snd (script stuck_env (initial (\<lambda>_. None)))))"
proof -
  let ?fin = "snd (script too_early_env (initial (\<lambda>_. None)))"
  have h: "js_includes not_yet_marker (bodyText too_early_env)
      \<and> fails too_early_env = (\<lambda>_. None) \<and> captchaImg too_early_env 1 = None"
    by (simp add: marker_in_too_early) (simp add: too_early_env_def plain_env_def)
  note t = not_yet_eligible_stops_run [of too_early_env "\<lambda>_. None"]
  note c3 = mp [OF conjunct2 [OF conjunct2 [OF t]] h]
  from c3 have g: "GetBodyText \<in> set (trace ?fin)" by simp
  from mp [OF conjunct1 [OF t] g] h obtain e t' where
    ts: "terminal_state ?fin = Some Terminal_NotYetEligible"
    and e: "eligible_date_shown (bodyText too_early_env) e"
    and i: "infoMessage ?fin
        = Some (NotYetMsg e (formatChineseDate (currentExpireDateRaw too_early_env)) t')"
    by auto
  have "e = [0x32, 0x30, 0x32, 0x35] @ [ch_year] @ padStart 2 [ch_zero] [0x30, 0x39]
      @ [ch_month] @ padStart 2 [ch_zero] [0x30, 0x36] @ [ch_day]"
    using e too_early_notice too_early_first_notice
    unfolding eligible_date_shown_def by blast
  also have "\<dots> = date_2025_09_06" by code_simp
  finally have e9: "e = date_2025_09_06" .
  have cur: "formatChineseDate (currentExpireDateRaw too_early_env) = date_2025_07_07"
    using format_2025_7_7 by (simp add: too_early_env_def)
  have u: "attempt_unsuccessful stuck_env 1 \<and> attempt_unsuccessful stuck_env 2
      \<and> attempt_unsuccessful stuck_env 3"
    by (simp add: attempt_unsuccessful_def stuck_env_def)
  note t' = not_yet_eligible_stops_run [of stuck_env "\<lambda>_. None"]
  from mp [OF conjunct1 [OF conjunct2 [OF t']] u]
  have n: "GetBodyText \<notin> set (trace (snd (script stuck_env (initial (\<lambda>_. None)))))" .
  from h too_early_notice g ts i e9 cur u n show ?thesis by simp
qed

section \<open>The cleanup phase\<close>

lemma finallyBlock_stop_throws:
  assumes "fails env (Suc (length (trace s))) = Some msg"
  shows "finallyBlock env s
           = (Inl (External msg), s\<lparr>trace := trace s @ [Sleep 5000, RecorderStop]\<rparr>)"
  using assms by (simp add: finallyBlock_def andThen_def emit_def perform_def)

lemma finallyBlock_close_throws:
  assumes "fails env (Suc (length (trace s))) = None"
    and "fails env (Suc (Suc (length (trace s)))) = Some msg"
  shows "finallyBlock env s
           = (Inl (External msg),
              s\<lparr>trace := trace s @ [Sleep 5000, RecorderStop, BrowserClose]\<rparr>)"
  using assms by (simp add: finallyBlock_def andThen_def emit_def perform_def)

lemma finallyBlock_completes:
  assumes "fails env (Suc (length (trace s))) = None"
    and "fails env (Suc (Suc (length (trace s)))) = None"
  shows "finallyBlock env s = (Inr (), s\<lparr>trace := trace s @ cleanup_trace env s\<rparr>)"
  using assms
  by (simp add: finallyBlock_def uploadToWebDAV_def sendTelegramMessage_def cleanup_trace_def
      andThen_def emit_def perform_def ok_def split: option.splits)

lemma script_broken:
  "script broken_env (initial (\<lambda>_. None))
     = (Inl (External []),
        \<lparr>files = (\<lambda>_. None), trace = [Goto LoginUrl, Sleep 5000, RecorderStop],
         infoMessage = None, scriptErrorMessage = Some (ErrorMsg (External []) [])\<rparr>)"
  by (simp add: script_def tryBlock_def readLastExpireDate_def loginAndOpenContract_def
      andThen_def perform_def ok_def catchBlock_def getBeijingTimeString_def finallyBlock_def
      emit_def initial_def broken_env_def plain_env_def)


lemma script_workflow:
  obtains s3 m where "script env (initial fs) = finallyBlock env s3"
    "list_all (\<lambda>e. pre_event e \<or> loop_event e \<or> post_event e) (trace s3)"
    "scriptErrorMessage s3 = Some m \<or> scriptErrorMessage s3 = None \<and> infoMessage s3 = Some m"
proof -
  obtain r s1 where tb: "tryBlock env (initial fs) = (r, s1)"
    by (cases "tryBlock env (initial fs)")
  define s3 where "s3 = (case r of
      Inl e \<Rightarrow> s1\<lparr>scriptErrorMessage := Some (ErrorMsg e (clock env (length (trace s1))))\<rparr>
    | Inr u \<Rightarrow> s1)"
  have eq: "script env (initial fs) = finallyBlock env s3"
    using tb by (cases r) (simp_all add: script_eq s3_def)
  show ?thesis
  proof (rule tryBlock_run [OF tb])
    fix pre loop after
    assume t: "trace s1 = trace (initial fs) @ pre @ loop @ after"
      and a: "list_all pre_event pre" "loop_trace maxCaptchaTries loop"
        "list_all post_event after"
      and e: "scriptErrorMessage s1 = scriptErrorMessage (initial fs)"
      and i: "r = Inr () \<Longrightarrow>
         (\<exists>a b t. infoMessage s1 = Some (NotYetMsg a b t))
           \<or> (\<exists>c n t. infoMessage s1 = Some (SuccessMsg c n t))
           \<or> (\<exists>c t. infoMessage s1 = Some (FailMsg c t))"
    have "trace s3 = pre @ loop @ after"
      using t by (cases r) (simp_all add: s3_def initial_def)
    with a loop_trace_events [OF a(2)]
    have w: "list_all (\<lambda>e. pre_event e \<or> loop_event e \<or> post_event e) (trace s3)"
      by (auto simp: list_all_iff)
    have "\<exists>m. scriptErrorMessage s3 = Some m
        \<or> scriptErrorMessage s3 = None \<and> infoMessage s3 = Some m"
    proof (cases r)
      case (Inl x)
      then show ?thesis by (simp add: s3_def)
    next
      case (Inr u)
      then have "r = Inr ()" by simp
      from i [OF this] Inr e show ?thesis by (auto simp: s3_def initial_def)
    qed
    then obtain m where "scriptErrorMessage s3 = Some m
        \<or> scriptErrorMessage s3 = None \<and> infoMessage s3 = Some m" ..
    with eq w show ?thesis by (rule that)
  qed
qed

lemma cleanup_trace_message:
  assumes "scriptErrorMessage s = Some m \<or> scriptErrorMessage s = None \<and> infoMessage s = Some m"
  shows "cleanup_trace env s
     = [Sleep 5000, RecorderStop, BrowserClose]
       @ (if recordingExists env \<and> webdavConfigured env then [WebDAVPut] else [])
       @ (if telegramConfigured env
          then [TelegramPost
                 (if recordingExists env \<and> webdavConfigured env
                  then BodyWithUpload m (case webdavFailure env of
                                           None \<Rightarrow> UploadOk | Some x \<Rightarrow> UploadFailed x)
                  else Body m)]
          else [])"
  using assms
  by (auto simp: cleanup_trace_def composeNotification_def split: option.splits)

lemma workflow_counts:
  assumes "list_all (\<lambda>e. pre_event e \<or> loop_event e \<or> post_event e) w"
  shows "filter (\<lambda>e. e = RecorderStop) w = []" "filter is_telegram w = []"
  using assms pre_event_excludes loop_event_excludes post_event_excludes
  by (auto simp: filter_empty_conv list_all_iff)

text \<open>
  Claim C6 fails as it is stated: \<open>recorder.stop()\<close> and \<open>browser.close()\<close> are
  awaited in the \<open>finally\<close> block outside any \<open>try\<close> (lines 325 and 326). In the
  environment in which every call throws, the run reaches the error state at the first
  navigation; the \<open>finally\<close> block is left when the recorder is stopped, the browser
  is not closed and no notification is posted, although the notification is configured.
\<close>

theorem cleanup_cut_short_counterexample:
  "terminal_state (snd (script broken_env (initial (\<lambda>_. None)))) = Some Terminal_Error
   \<and> telegramConfigured broken_env
   \<and> trace (snd (script broken_env (initial (\<lambda>_. None))))
       = [Goto LoginUrl, Sleep 5000, RecorderStop]
   \<and> BrowserClose \<notin> set (trace (snd (script broken_env (initial (\<lambda>_. None)))))
   \<and> filter is_telegram (trace (snd (script broken_env (initial (\<lambda>_. None))))) = []"
  by (simp add: script_broken terminal_state_def) (simp add: broken_env_def plain_env_def)

text \<open>
  Claim C6, amended. In every run, whatever the environment answers and whichever call
  throws, the workflow reaches one of the four terminal states and the \<open>finally\<close>
  block is then entered exactly once: after the effects of the workflow the recorder is
  stopped exactly once, and at most one notification is posted. When stopping the recorder
  throws, the block ends there with that error; when closing the browser throws, it ends
  there. Otherwise it runs to its end without an error: the browser is closed, the
  recording is uploaded when it exists and the upload is configured, and, when the
  notification is configured, exactly one notification is posted, which carries the error
  message of the run, or else its status message, with the result of the upload when there
  was one.
\<close>

theorem cleanup_entered_once:
  "\<exists>workflow.
      list_all (\<lambda>e. pre_event e \<or> loop_event e \<or> post_event e) workflow
      \<and> terminal_state (snd (script env (initial fs))) \<noteq> None
      \<and> length (filter (\<lambda>e. e = RecorderStop) (trace (snd (script env (initial fs))))) = 1
      \<and> length (filter is_telegram (trace (snd (script env (initial fs))))) \<le> 1
      \<and> (\<forall>msg. fails env (Suc (length workflow)) = Some msg \<longrightarrow>
            fst (script env (initial fs)) = Inl (External msg)
            \<and> trace (snd (script env (initial fs))) = workflow @ [Sleep 5000, RecorderStop])
      \<and> (\<forall>msg. fails env (Suc (length workflow)) = None
              \<and> fails env (Suc (Suc (length workflow))) = Some msg \<longrightarrow>
            fst (script env (initial fs)) = Inl (External msg)
            \<and> trace (snd (script env (initial fs)))
                = workflow @ [Sleep 5000, RecorderStop, BrowserClose])
      \<and> (fails env (Suc (length workflow)) = None
            \<and> fails env (Suc (Suc (length workflow))) = None \<longrightarrow>
            fst (script env (initial fs)) = Inr ()
            \<and> (\<exists>m. (scriptErrorMessage (snd (script env (initial fs))) = Some m
                      \<or> scriptErrorMessage (snd (script env (initial fs))) = None
                          \<and> infoMessage (snd (script env (initial fs))) = Some m)
                  \<and> trace (snd (script env (initial fs)))
                      = workflow @ [Sleep 5000, RecorderStop, BrowserClose]
                        @ (if recordingExists env \<and> webdavConfigured env
                           then [WebDAVPut] else [])
                        @ (if telegramConfigured env
                           then [TelegramPost
                                  (if recordingExists env \<and> webdavConfigured env
                                   then BodyWithUpload m
                                          (case webdavFailure env of
                                             None \<Rightarrow> UploadOk
                                           | Some x \<Rightarrow> UploadFailed x)
                                   else Body m)]
                           else [])))"
proof (rule script_workflow [of env fs])
  fix s3 m
  let ?run = "script env (initial fs)"
  assume eq: "?run = finallyBlock env s3"
    and w: "list_all (\<lambda>e. pre_event e \<or> loop_event e \<or> post_event e) (trace s3)"
    and m: "scriptErrorMessage s3 = Some m
              \<or> scriptErrorMessage s3 = None \<and> infoMessage s3 = Some m"
  note c = workflow_counts [OF w]
  from finallyBlock_run [of env s3] eq obtain evs where
    r: "trace (snd ?run) = trace s3 @ Sleep 5000 # RecorderStop # evs"
      "RecorderStop \<notin> set evs" "length (filter is_telegram evs) \<le> 1"
      "infoMessage (snd ?run) = infoMessage s3"
      "scriptErrorMessage (snd ?run) = scriptErrorMessage s3"
    by auto
  from r(2) have "filter (\<lambda>e. e = RecorderStop) evs = []"
    by (induction evs) auto
  with r(1,3) c have 1: "length (filter (\<lambda>e. e = RecorderStop) (trace (snd ?run))) = 1"
    and 2: "length (filter is_telegram (trace (snd ?run))) \<le> 1"
    by simp_all
  from script_run [of env fs] have 0: "terminal_state (snd ?run) \<noteq> None" by blast
  have 3: "fst ?run = Inl (External msg) \<and> trace (snd ?run) = trace s3 @ [Sleep 5000, RecorderStop]"
    if "fails env (Suc (length (trace s3))) = Some msg" for msg
    using finallyBlock_stop_throws [OF that] eq by simp
  have 4: "fst ?run = Inl (External msg)
      \<and> trace (snd ?run) = trace s3 @ [Sleep 5000, RecorderStop, BrowserClose]"
    if "fails env (Suc (length (trace s3))) = None
        \<and> fails env (Suc (Suc (length (trace s3)))) = Some msg" for msg
    using finallyBlock_close_throws [of env s3 msg] that eq by simp
  have 5: "fst ?run = Inr ()
      \<and> (\<exists>m. (scriptErrorMessage (snd ?run) = Some m
                \<or> scriptErrorMessage (snd ?run) = None \<and> infoMessage (snd ?run) = Some m)
            \<and> trace (snd ?run)
                = trace s3 @ [Sleep 5000, RecorderStop, BrowserClose]
                  @ (if recordingExists env \<and> webdavConfigured env then [WebDAVPut] else [])
                  @ (if telegramConfigured env
                     then [TelegramPost
                            (if recordingExists env \<and> webdavConfigured env
                             then BodyWithUpload m
                                    (case webdavFailure env of
                                       None \<Rightarrow> UploadOk | Some x \<Rightarrow> UploadFailed x)
                             else Body m)]
                     else []))"
    if h: "fails env (Suc (length (trace s3))) = None
        \<and> fails env (Suc (Suc (length (trace s3)))) = None"
  proof -
    from h have "?run = (Inr (), s3\<lparr>trace := trace s3 @ cleanup_trace env s3\<rparr>)"
      by (simp add: eq finallyBlock_completes)
    with m cleanup_trace_message [OF m, of env] show ?thesis by auto
  qed
  from w 0 1 2 3 4 5 show ?thesis by blast
qed

text \<open>
  In the plain environment the block runs to its end and posts the status message; in the
  environment in which every call throws it ends when the recorder is stopped.
\<close>

theorem cleanup_entered_once_witness:
  "fails plain_env = (\<lambda>_. None) \<and> telegramConfigured plain_env
   \<and> fst (script plain_env (initial (\<lambda>_. None))) = Inr ()
   \<and> (\<exists>workflow m.
         list_all (\<lambda>e. pre_event e \<or> loop_event e \<or> post_event e) workflow
         \<and> infoMessage (snd (script plain_env (initial (\<lambda>_. None)))) = Some m
         \<and> trace (snd (script plain_env (initial (\<lambda>_. None))))
             = workflow @ [Sleep 5000, RecorderStop, BrowserClose, TelegramPost (Body m)])
   \<and> fails broken_env = (\<lambda>_. Some [])
   \<and> fst (script broken_env (initial (\<lambda>_. None))) = Inl (External [])
   \<and> (\<exists>workflow.
         trace (snd (script broken_env (initial (\<lambda>_. None))))
           = workflow @ [Sleep 5000, RecorderStop])"
proof -
  have p: "fails plain_env = (\<lambda>_. None)" "telegramConfigured plain_env"
    "\<not> webdavConfigured plain_env"
    by (simp_all add: plain_env_def)
  have b: "fails broken_env = (\<lambda>_. Some [])" by (simp add: broken_env_def)
  have n: "scriptErrorMessage (snd (script plain_env (initial (\<lambda>_. None)))) = None"
  proof -
    have "fails plain_env = (\<lambda>_. None)" "captchaImg plain_env 1 = None"
      "\<not> js_includes not_yet_marker (bodyText plain_env)"
      "classifyOutcome (persistedDate (\<lambda>_. None))
         (formatChineseDate (newExpireDateRaw plain_env)) = Success"
      by (simp_all add: plain_env_def not_yet_marker_def classifyOutcome_def persistedDate_def
          format_2025_08_07 formatChineseDate_unknown scenario_strings)
         (simp add: formatChineseDate_def date_2025_08_07_def unknown_str_def)
    from script_renewed [OF this] show ?thesis by simp
  qed
  from cleanup_entered_once [of plain_env "\<lambda>_. None"] p n
  have 1: "fst (script plain_env (initial (\<lambda>_. None))) = Inr ()
   \<and> (\<exists>workflow m.
         list_all (\<lambda>e. pre_event e \<or> loop_event e \<or> post_event e) workflow
         \<and> infoMessage (snd (script plain_env (initial (\<lambda>_. None)))) = Some m
         \<and> trace (snd (script plain_env (initial (\<lambda>_. None))))
             = workflow @ [Sleep 5000, RecorderStop, BrowserClose, TelegramPost (Body m)])"
    by auto
  from cleanup_entered_once [of broken_env "\<lambda>_. None"] b
  have 2: "fst (script broken_env (initial (\<lambda>_. None))) = Inl (External [])
   \<and> (\<exists>workflow.
         trace (snd (script broken_env (initial (\<lambda>_. None))))
           = workflow @ [Sleep 5000, RecorderStop])"
    by auto
  from p b 1 2 show ?thesis by simp
qed

section \<open>A date that cannot be read after the renewal\<close>

lemma never_raises_ok: "never_raises e (ok x)"
  by (simp add: never_raises_def ok_def)

lemma never_raises_throw: "e' \<noteq> e \<Longrightarrow> never_raises e (throw e')"
  by (simp add: never_raises_def throw_def)

lemma never_raises_emit: "never_raises e (emit ev)"
  by (simp add: never_raises_def emit_def)

lemma never_raises_perform: "never_raises ExpireDateNotFound (perform env ev)"
  by (simp add: never_raises_def perform_def split: option.splits)

lemma never_raises_andThen:
  assumes "never_raises e m" "\<And>x. never_raises e (f x)"
  shows "never_raises e (andThen m f)"
  unfolding never_raises_def
proof
  fix s
  obtain r s' where ms: "m s = (r, s')" by (cases "m s")
  from assms(1) ms have "r \<noteq> Inl e" by (auto simp: never_raises_def dest: spec [of _ s])
  with assms(2) ms show "fst (andThen m f s) \<noteq> Inl e"
    by (cases r) (auto simp: andThen_def never_raises_def)
qed

lemma never_raises_steps:
  "(\<And>m. m \<in> set ms \<Longrightarrow> never_raises e m) \<Longrightarrow> never_raises e (steps ms)"
  by (induction ms) (auto intro: never_raises_andThen never_raises_ok)

lemma never_raises_writeFileSync: "never_raises ExpireDateNotFound (writeFileSync env f c)"
  by (simp add: never_raises_def writeFileSync_def andThen_def perform_def split: option.splits)

lemma never_raises_getBeijingTimeString: "never_raises e (getBeijingTimeString env)"
  by (simp add: never_raises_def getBeijingTimeString_def)

lemma never_raises_setInfoMessage: "never_raises e (setInfoMessage m)"
  by (simp add: never_raises_def setInfoMessage_def)

lemma never_raises_readLastExpireDate:
  "never_raises ExpireDateNotFound (readLastExpireDate env)"
  by (simp add: never_raises_def readLastExpireDate_def andThen_def perform_def ok_def
      split: option.splits)

lemma never_raises_captchaAttempt:
  "never_raises ExpireDateNotFound (captchaAttempt env a)"
  unfolding captchaAttempt_def
  by (auto intro!: never_raises_andThen never_raises_perform never_raises_emit never_raises_ok
      never_raises_writeFileSync split: option.splits)

lemma captchaLoop_never_raises: "fst (captchaLoop env a s) \<noteq> Inl ExpireDateNotFound"
proof (induction env a s rule: captchaLoop.induct)
  case (1 env a s)
  show ?case
  proof (cases "a \<le> maxCaptchaTries")
    case False
    then show ?thesis by (subst captchaLoop.simps) simp
  next
    case True
    obtain r s' where at: "captchaAttempt env a s = (r, s')" by (cases "captchaAttempt env a s")
    from never_raises_captchaAttempt [of env a] at have r: "r \<noteq> Inl ExpireDateNotFound"
      by (auto simp: never_raises_def dest: spec [of _ s])
    show ?thesis
    proof (cases "r = Inr Continue")
      case False
      with r True at show ?thesis
        by (subst captchaLoop.simps) (auto split: sum.splits loop_step.splits)
    next
      case Continue: True
      from "1.IH" [OF True at [symmetric] Continue refl] True at Continue show ?thesis
        by (subst captchaLoop.simps) simp
    qed
  qed
qed

lemma never_raises_solveCaptcha: "never_raises ExpireDateNotFound (solveCaptcha env)"
  unfolding solveCaptcha_def
  by (intro never_raises_andThen)
     (auto simp: never_raises_def captchaLoop_never_raises throw_def ok_def)

lemma never_raises_afterCaptcha:
  "never_raises ExpireDateNotFound (afterCaptcha env persisted current)"
proof -
  have c: "never_raises ExpireDateNotFound (confirmAndVerify env persisted)"
    unfolding confirmAndVerify_def Let_def
    using classifyOutcome_never_fatal [of persisted "newExpireDateRaw env"]
    by (intro never_raises_andThen never_raises_steps)
       (auto intro!: never_raises_andThen never_raises_perform never_raises_emit
          never_raises_getBeijingTimeString never_raises_setInfoMessage
          never_raises_writeFileSync split: outcome.splits)
  have n: "never_raises ExpireDateNotFound (reportNotYet env current)"
    unfolding reportNotYet_def Let_def
    by (intro never_raises_andThen never_raises_getBeijingTimeString never_raises_setInfoMessage)
  show ?thesis
    unfolding afterCaptcha_def
    by (intro never_raises_andThen never_raises_perform) (simp add: c n)
qed

lemma never_raises_tryBlock: "never_raises ExpireDateNotFound (tryBlock env)"
  unfolding tryBlock_def loginAndOpenContract_def initiateRenewal_def
  by (intro never_raises_andThen never_raises_readLastExpireDate never_raises_steps
      never_raises_emit never_raises_solveCaptcha never_raises_afterCaptcha)
     (auto intro: never_raises_perform never_raises_emit)

lemma script_never_reports_missing_date:
  "scriptErrorMessage (snd (script env (initial fs))) \<noteq> Some (ErrorMsg ExpireDateNotFound t)"
proof -
  obtain r s1 where tb: "tryBlock env (initial fs) = (r, s1)"
    by (cases "tryBlock env (initial fs)")
  from never_raises_tryBlock [of env] tb have r: "r \<noteq> Inl ExpireDateNotFound"
    by (auto simp: never_raises_def dest: spec [of _ "initial fs"])
  from tryBlock_run [OF tb] have e: "scriptErrorMessage s1 = None"
    by (rule) (simp add: initial_def)
  from finallyBlock_run [of env] have f:
    "scriptErrorMessage (snd (finallyBlock env s)) = scriptErrorMessage s" for s
    by blast
  from tb r e show ?thesis
    by (cases r) (simp_all add: script_eq f)
qed

lemma no_date_env_facts:
  "fails no_date_env = (\<lambda>_. None)" "captchaImg no_date_env 1 = None"
  "\<not> js_includes not_yet_marker (bodyText no_date_env)"
  "newExpireDateRaw no_date_env = []" "localTZA no_date_env = 0"
  "telegramConfigured no_date_env"
  by (simp_all add: no_date_env_def plain_env_def not_yet_marker_def)

lemma format_empty: "formatChineseDate [] = unknown_str"
  by code_simp

lemma next_renew_unknown: "getNextRenewAvailableDate (fixed_zone 0) unknown_str = unknown_str"
  by code_simp

lemma persisted_2025_07_07: "persistedDate (only_expire_txt date_2025_07_07) = date_2025_07_07"
  by code_simp

lemma unknown_is_fresh:
  "classifyOutcome (persistedDate (only_expire_txt date_2025_07_07))
     (formatChineseDate (newExpireDateRaw no_date_env)) = Success"
  by (simp add: no_date_env_facts format_empty persisted_2025_07_07) code_simp

lemma script_no_date:
  "fst (script no_date_env (initial (only_expire_txt date_2025_07_07))) = Inr ()"
  "scriptErrorMessage (snd (script no_date_env (initial (only_expire_txt date_2025_07_07)))) = None"
  "\<exists>t. infoMessage (snd (script no_date_env (initial (only_expire_txt date_2025_07_07))))
        = Some (SuccessMsg unknown_str unknown_str t)"
  "files (snd (script no_date_env (initial (only_expire_txt date_2025_07_07)))) ExpireTxt
     = Some unknown_str"
  "WriteFile ExpireTxt unknown_str
     \<in> set (trace (snd (script no_date_env (initial (only_expire_txt date_2025_07_07)))))"
  using script_renewed [OF no_date_env_facts(1,2,3) unknown_is_fresh]
  by (simp_all add: no_date_env_facts format_empty next_renew_unknown)

text \<open>
  Claim C1 and the code differ on a date that cannot be read. The decision of lines 300 to
  316 is taken on the result of \<open>formatChineseDate\<close>, which is never empty: an empty
  reading becomes the word for unknown. So the decision is never the error of line 315,
  and no run reports that error. When the page shows no date after the renewal and the
  date of 7 July 2025 is persisted, the earlier version of the script decides for the
  error, while this version decides for a success: the run ends without an error as a
  successful renewal whose message gives the word for unknown as the new date.
\<close>

theorem unreadable_date_reported_as_success:
  "scriptErrorMessage (snd (script env (initial fs))) \<noteq> Some (ErrorMsg ExpireDateNotFound t)
   \<and> classifyOutcome persisted (formatChineseDate raw) \<noteq> FatalError
   \<and> newExpireDateRaw no_date_env = []
   \<and> classifyOutcome_legacy date_2025_07_07 (newExpireDateRaw no_date_env) = FatalError
   \<and> formatChineseDate (newExpireDateRaw no_date_env) = unknown_str
   \<and> classifyOutcome date_2025_07_07 (formatChineseDate (newExpireDateRaw no_date_env)) = Success
   \<and> fst (script no_date_env (initial (only_expire_txt date_2025_07_07))) = Inr ()
   \<and> terminal_state (snd (script no_date_env (initial (only_expire_txt date_2025_07_07))))
       = Some Terminal_Success
   \<and> (\<exists>t. infoMessage (snd (script no_date_env (initial (only_expire_txt date_2025_07_07))))
             = Some (SuccessMsg unknown_str unknown_str t))"
proof -
  have l: "classifyOutcome_legacy date_2025_07_07 (newExpireDateRaw no_date_env) = FatalError"
    by (simp add: no_date_env_facts classifyOutcome_legacy_def)
  have c: "classifyOutcome date_2025_07_07 (formatChineseDate (newExpireDateRaw no_date_env))
      = Success"
    using unknown_is_fresh by (simp add: persisted_2025_07_07)
  have t: "terminal_state (snd (script no_date_env (initial (only_expire_txt date_2025_07_07))))
       = Some Terminal_Success"
    using script_no_date(2,3) by (auto simp: terminal_state_def)
  from script_never_reports_missing_date classifyOutcome_never_fatal l c t script_no_date(1,3)
  show ?thesis by (simp add: no_date_env_facts format_empty)
qed

text \<open>
  Claim C8 and the code differ in the same run: \<open>expire.txt\<close>, which held the date of
  7 July 2025, is written although no renewal was confirmed, and holds the word for unknown
  at the end.
\<close>

theorem unreadable_date_overwrites_expire_file:
  "only_expire_txt date_2025_07_07 ExpireTxt = Some date_2025_07_07
   \<and> newExpireDateRaw no_date_env = []
   \<and> terminal_state (snd (script no_date_env (initial (only_expire_txt date_2025_07_07))))
       = Some Terminal_Success
   \<and> WriteFile ExpireTxt unknown_str
       \<in> set (trace (snd (script no_date_env (initial (only_expire_txt date_2025_07_07)))))
   \<and> files (snd (script no_date_env (initial (only_expire_txt date_2025_07_07)))) ExpireTxt
       = Some unknown_str
   \<and> unknown_str \<noteq> date_2025_07_07"
proof -
  have t: "terminal_state (snd (script no_date_env (initial (only_expire_txt date_2025_07_07))))
       = Some Terminal_Success"
    using script_no_date(2,3) by (auto simp: terminal_state_def)
  have u: "unknown_str \<noteq> date_2025_07_07" by code_simp
  from t u script_no_date(4,5) show ?thesis
    by (simp add: no_date_env_facts only_expire_txt_def)
qed

end
